theory Spec2Isabelle
  imports Main "HOL-Library.Sublist"
begin

section \<open>Python values and exceptions\<close>

text \<open>
  The notebook \<^verbatim>\<open>notebook/agenteval_cq_math.ipynb\<close> is modelled cell by cell.
  A Python \<^verbatim>\<open>str\<close> is a \<^typ>\<open>string\<close>; a \<^typ>\<open>char\<close> stands for a code point
  below 256. Every exception the cells can raise is a value of \<open>py_error\<close>, and a
  computation that may raise returns \<open>py_error + 'a\<close> with \<open>Inl\<close> for the exception.
  \<open>PyException\<close> is any exception that \<^verbatim>\<open>eval\<close> or an imported function raises, with
  its message.
\<close>

datatype py_error =
    KeyError
  | TypeError
  | IndexError
  | UnboundLocalError
  | NameError
  | AttributeError
  | RuntimeError
  | PyException string

text \<open>The values a persisted document or an evaluated expression can hold.\<close>

datatype pyval =
    PNone
  | PBool bool
  | PInt int
  | PStr string
  | PList "pyval list"
  | PDict "(pyval \<times> pyval) list"

section \<open>String operations used by the cells\<close>

text \<open>\<^verbatim>\<open>sub in s\<close> on two strings: \<open>sub\<close> occurs in \<open>s\<close> as a contiguous block.\<close>

definition py_in :: "string \<Rightarrow> string \<Rightarrow> bool" where
  "py_in sub s = sublist sub s"

text \<open>
  \<^verbatim>\<open>f.readlines()\<close> on a file opened in text mode: the text is cut after every
  newline, each line keeps its newline, and only the last line can lack one. The
  argument is the decoded text of the file, newlines already translated to
  \<open>CHR 0x0A\<close>.
\<close>

fun readlines :: "string \<Rightarrow> string list" where
  "readlines [] = []"
| "readlines (c # cs) =
     (if c = CHR 0x0A then [c] # readlines cs
      else (case readlines cs of [] \<Rightarrow> [[c]] | l # ls \<Rightarrow> (c # l) # ls))"

text \<open>\<^verbatim>\<open>s.replace(old, "")\<close> for a one-character \<open>old\<close>: every occurrence is deleted.\<close>

definition py_replace_del :: "char \<Rightarrow> string \<Rightarrow> string" where
  "py_replace_del old s = filter (\<lambda>c. c \<noteq> old) s"

text \<open>
  \<^verbatim>\<open>s.split(sep)\<close> for a one-character separator: the pieces between the
  separators, empty pieces included; the result is never empty.
\<close>

fun py_split :: "char \<Rightarrow> string \<Rightarrow> string list" where
  "py_split sep [] = [[]]"
| "py_split sep (c # cs) =
     (if c = sep then [] # py_split sep cs
      else (case py_split sep cs of [] \<Rightarrow> [[c]] | p # ps \<Rightarrow> (c # p) # ps))"

text \<open>\<^verbatim>\<open>xs[-1]\<close>: the last element, \<^verbatim>\<open>IndexError\<close> on an empty list.\<close>

definition py_last :: "'a list \<Rightarrow> py_error + 'a" where
  "py_last xs = (case xs of [] \<Rightarrow> Inl IndexError | _ # _ \<Rightarrow> Inr (last xs))"

text \<open>
  \<^verbatim>\<open>str.isspace\<close> on one character, for code points below 256: tab to carriage
  return, the four separators \<open>0x1C\<close> to \<open>0x1F\<close>, the space, next line and the
  no-break space.
\<close>

definition py_isspace :: "char \<Rightarrow> bool" where
  "py_isspace c =
     (let n = (of_char c :: nat)
      in (9 \<le> n \<and> n \<le> 13) \<or> (28 \<le> n \<and> n \<le> 32) \<or> n = 133 \<or> n = 160)"

definition py_lstrip :: "string \<Rightarrow> string" where
  "py_lstrip s = dropWhile py_isspace s"

definition py_rstrip :: "string \<Rightarrow> string" where
  "py_rstrip s = rev (dropWhile py_isspace (rev s))"

definition py_strip :: "string \<Rightarrow> string" where
  "py_strip s = py_lstrip (py_rstrip s)"

section \<open>Cell 7: \<open>read_without_groundtruth\<close>\<close>

text \<open>
  \<^verbatim>\<open>line.replace(",", "").split(":")[-1].rstrip().strip()\<close>, the label read from a
  line that holds \<^verbatim>\<open>is_correct\<close>.
\<close>

definition correctness_of :: "string \<Rightarrow> py_error + string" where
  "correctness_of line =
     (case py_last (py_split (CHR '':'') (py_replace_del (CHR '','') line)) of
        Inl e \<Rightarrow> Inl e
      | Inr piece \<Rightarrow> Inr (py_strip (py_rstrip piece)))"

text \<open>The test of the \<^verbatim>\<open>if\<close> branch: the line holds none of the three markers.\<close>

definition no_groundtruth :: "string \<Rightarrow> bool" where
  "no_groundtruth line =
     (\<not> py_in ''is_correct'' line \<and> \<not> py_in ''correct_ans'' line \<and>
      \<not> py_in ''check_result'' line)"

text \<open>
  The \<^verbatim>\<open>for line in f\<close> loop. The state is \<^verbatim>\<open>output_dictionary\<close> and
  \<^verbatim>\<open>correctness\<close>; the latter is \<open>None\<close> while the name is unbound.
\<close>

fun rwg_loop :: "string list \<Rightarrow> string \<times> string option \<Rightarrow> py_error + (string \<times> string option)" where
  "rwg_loop [] st = Inr st"
| "rwg_loop (line # ls) (output_dictionary, correctness) =
     (if no_groundtruth line then rwg_loop ls (output_dictionary @ line, correctness)
      else if py_in ''is_correct'' line then
        (case correctness_of line of
           Inl e \<Rightarrow> Inl e
         | Inr c \<Rightarrow> rwg_loop ls (output_dictionary, Some c))
      else rwg_loop ls (output_dictionary, correctness))"

text \<open>
  The function on the text of the file it opens. The \<^verbatim>\<open>return\<close> reads
  \<^verbatim>\<open>correctness\<close>, which raises \<^verbatim>\<open>UnboundLocalError\<close> when no line bound it.
\<close>

definition read_without_groundtruth :: "string \<Rightarrow> py_error + (string \<times> string)" where
  "read_without_groundtruth content =
     (case rwg_loop (readlines content) ([], None) of
        Inl e \<Rightarrow> Inl e
      | Inr (output_dictionary, None) \<Rightarrow> Inl UnboundLocalError
      | Inr (output_dictionary, Some correctness) \<Rightarrow> Inr (output_dictionary, correctness))"

section \<open>Cell 18: the batch loop over the logs\<close>

text \<open>
  \<^verbatim>\<open>TestCase.create_from_file\<close> and \<^verbatim>\<open>quantify_criteria\<close> are imported from the
  package; the loop is modelled for any behaviour of the two, given as the
  functions \<open>create_from_file\<close> (from a path) and \<open>quantify\<close> (from a test case, the
  criteria, the task and the configuration being fixed). \<^verbatim>\<open>os.listdir\<close> is the list
  \<open>log_dirs\<close>: every entry of the log directory (the \<^verbatim>\<open>prefix\<close> of the source, here \<open>dir_prefix\<close>) with the
  file names under it.

  The state of the loop is the dictionary \<^verbatim>\<open>outcome\<close> (an association list from
  item identifier to quantifier output) and, as a trace, the identifiers on which
  \<^verbatim>\<open>quantify_criteria\<close> was called. An exception leaves the loops at once; the
  result then holds the exception and the trace up to it.
\<close>

type_synonym 'q batch_state = "(string \<times> 'q) list \<times> string list"

fun files_loop ::
  "(string \<Rightarrow> py_error + 't) \<Rightarrow> ('t \<Rightarrow> py_error + 'q) \<Rightarrow> string \<Rightarrow> string \<Rightarrow>
   string list \<Rightarrow> 'q batch_state \<Rightarrow> 'q batch_state \<times> py_error option" where
  "files_loop create_from_file quantify log_path dir_prefix [] st = (st, None)"
| "files_loop create_from_file quantify log_path dir_prefix (file_name # rest) (outcome, called) =
     (let gameid = dir_prefix @ ''_'' @ file_name in
      case py_last (py_split (CHR ''.'') file_name) of
        Inl e \<Rightarrow> ((outcome, called), Some e)
      | Inr ext \<Rightarrow>
          if ext = ''json'' then
            (case create_from_file (log_path @ ''/'' @ dir_prefix @ ''/'' @ file_name) of
               Inl e \<Rightarrow> ((outcome, called), Some e)
             | Inr test_case \<Rightarrow>
                 (case quantify test_case of
                    Inl e \<Rightarrow> ((outcome, called @ [gameid]), Some e)
                  | Inr quantifier_output \<Rightarrow>
                      files_loop create_from_file quantify log_path dir_prefix rest
                        (outcome, called @ [gameid])))
          else files_loop create_from_file quantify log_path dir_prefix rest (outcome, called))"

fun prefixes_loop ::
  "(string \<Rightarrow> py_error + 't) \<Rightarrow> ('t \<Rightarrow> py_error + 'q) \<Rightarrow> string \<Rightarrow>
   (string \<times> string list) list \<Rightarrow> 'q batch_state \<Rightarrow> 'q batch_state \<times> py_error option" where
  "prefixes_loop create_from_file quantify log_path [] st = (st, None)"
| "prefixes_loop create_from_file quantify log_path ((dir_prefix, file_names) # rest) st =
     (case files_loop create_from_file quantify log_path dir_prefix file_names st of
        (st', Some e) \<Rightarrow> (st', Some e)
      | (st', None) \<Rightarrow> prefixes_loop create_from_file quantify log_path rest st')"

text \<open>
  The cell: \<^verbatim>\<open>outcome = {}\<close>, the two loops, then \<^verbatim>\<open>json.dump(outcome, file)\<close>.
  The result is the trace of calls and either the exception that ended the cell
  or the dictionary written to \<^verbatim>\<open>evaluated_problems.json\<close>.
\<close>

definition run_batch ::
  "(string \<Rightarrow> py_error + 't) \<Rightarrow> ('t \<Rightarrow> py_error + 'q) \<Rightarrow> string \<Rightarrow>
   (string \<times> string list) list \<Rightarrow> string list \<times> (py_error + (string \<times> 'q) list)" where
  "run_batch create_from_file quantify log_path log_dirs =
     (case prefixes_loop create_from_file quantify log_path log_dirs ([], []) of
        ((outcome, called), Some e) \<Rightarrow> (called, Inl e)
      | ((outcome, called), None) \<Rightarrow> (called, Inr outcome))"

section \<open>Cell 21: averages and confidence intervals\<close>

subsection \<open>Dictionaries, subscripts and iteration\<close>

text \<open>
  A list or a dictionary cannot be hashed, every other value can. As keys of a dictionary
  \<^verbatim>\<open>True\<close> and \<^verbatim>\<open>1\<close> are the same key, and so are \<^verbatim>\<open>False\<close> and \<^verbatim>\<open>0\<close>; \<open>py_key\<close>
  is the value a key is looked up by.
\<close>

definition py_hashable :: "pyval \<Rightarrow> bool" where
  "py_hashable x = (case x of PList _ \<Rightarrow> False | PDict _ \<Rightarrow> False | _ \<Rightarrow> True)"

definition py_key :: "pyval \<Rightarrow> pyval" where
  "py_key x = (case x of PBool b \<Rightarrow> PInt (if b then 1 else 0) | _ \<Rightarrow> x)"

text \<open>\<^verbatim>\<open>d[key]\<close> on a dictionary with string keys.\<close>

definition dict_get :: "(string \<times> 'v) list \<Rightarrow> string \<Rightarrow> py_error + 'v" where
  "dict_get d key = (case map_of d key of None \<Rightarrow> Inl KeyError | Some v \<Rightarrow> Inr v)"

text \<open>\<^verbatim>\<open>xs[i]\<close> on a sequence: a negative index counts from the end.\<close>

definition py_index :: "'a list \<Rightarrow> int \<Rightarrow> py_error + 'a" where
  "py_index xs i =
     (if 0 \<le> i \<and> i < int (length xs) then Inr (xs ! nat i)
      else if i < 0 \<and> - int (length xs) \<le> i then Inr (xs ! nat (int (length xs) + i))
      else Inl IndexError)"

text \<open>
  \<^verbatim>\<open>obj[key]\<close> on any value: a lookup in a dictionary (\<^verbatim>\<open>TypeError\<close> when the key
  cannot be hashed, \<^verbatim>\<open>KeyError\<close> when it is missing), an element of a list or a
  character of a string for an integer key, \<^verbatim>\<open>TypeError\<close> otherwise.
\<close>

definition py_getitem :: "pyval \<Rightarrow> pyval \<Rightarrow> py_error + pyval" where
  "py_getitem obj key =
     (case obj of
        PDict d \<Rightarrow>
          if py_hashable key then
            (case map_of (map (\<lambda>(k, v). (py_key k, v)) d) (py_key key) of
               None \<Rightarrow> Inl KeyError
             | Some v \<Rightarrow> Inr v)
          else Inl TypeError
      | PList xs \<Rightarrow> (case py_key key of PInt i \<Rightarrow> py_index xs i | _ \<Rightarrow> Inl TypeError)
      | PStr s \<Rightarrow>
          (case py_key key of
             PInt i \<Rightarrow> (case py_index s i of Inl e \<Rightarrow> Inl e | Inr c \<Rightarrow> Inr (PStr [c]))
           | _ \<Rightarrow> Inl TypeError)
      | _ \<Rightarrow> Inl TypeError)"

text \<open>
  The values a \<^verbatim>\<open>for\<close> loop goes through: the elements of a list, the characters of a
  string, the keys of a dictionary; any other value cannot be iterated.
\<close>

definition py_iter :: "pyval \<Rightarrow> py_error + pyval list" where
  "py_iter x =
     (case x of
        PList xs \<Rightarrow> Inr xs
      | PStr s \<Rightarrow> Inr (map (\<lambda>c. PStr [c]) s)
      | PDict d \<Rightarrow> Inr (map fst d)
      | _ \<Rightarrow> Inl TypeError)"

text \<open>\<^verbatim>\<open>list(x.keys())\<close>: only a dictionary has the method.\<close>

definition py_keys :: "pyval \<Rightarrow> py_error + pyval list" where
  "py_keys x = (case x of PDict d \<Rightarrow> Inr (map fst d) | _ \<Rightarrow> Inl AttributeError)"

subsection \<open>The variables of the notebook and \<open>eval\<close>\<close>

text \<open>
  The cell calls the built-in \<^verbatim>\<open>eval\<close> with the text alone, so the expression is
  evaluated in the namespace of the notebook: it can read the variables of the cell and
  change them. \<open>namespace\<close> holds the variables that the cell reads after a call of
  \<^verbatim>\<open>eval\<close> and before it next binds them, with the types the cell gives them:
  \<^verbatim>\<open>dictionary_for_eval\<close> (\<open>None\<close> while the name is unbound), \<^verbatim>\<open>outcome\<close>,
  \<^verbatim>\<open>nl2int\<close>, \<^verbatim>\<open>criterion\<close>, \<^verbatim>\<open>task\<close> (its lists \<^verbatim>\<open>s\<close> and \<^verbatim>\<open>f\<close>), \<^verbatim>\<open>game\<close> and
  \<^verbatim>\<open>tmp_dic\<close>. The variables hold values: a change of a container in place and a new
  binding of its name are the same change. The list \<^verbatim>\<open>criteria\<close>, the four result
  dictionaries and the names of the libraries and of the built-ins are not in the
  namespace: an evaluated text is taken to leave them alone.

  \<^verbatim>\<open>eval\<close> itself is a parameter \<open>ev\<close> of the model: from the text and the namespace to
  the value of the expression, or the exception it raises, and the namespace it leaves.
  On an argument that is not a string \<^verbatim>\<open>eval\<close> raises \<^verbatim>\<open>TypeError\<close>.
\<close>

record namespace =
  ns_dictionary_for_eval :: "pyval option"
  ns_outcome :: "(string \<times> (string \<times> pyval) list) list"
  ns_nl2int :: "pyval \<rightharpoonup> nat"
  ns_criterion :: pyval
  ns_task :: "nat list \<times> nat list"
  ns_game :: string
  ns_tmp_dic :: pyval

type_synonym py_evaluator = "string \<Rightarrow> namespace \<Rightarrow> (py_error + pyval) \<times> namespace"

definition py_eval :: "py_evaluator \<Rightarrow> pyval \<Rightarrow> namespace \<Rightarrow> (py_error + pyval) \<times> namespace" where
  "py_eval ev x ns = (case x of PStr s \<Rightarrow> ev s ns | _ \<Rightarrow> (Inl TypeError, ns))"

subsection \<open>The table \<^verbatim>\<open>nl2int\<close>\<close>

text \<open>
  The inner loop \<^verbatim>\<open>for v in ...["accepted_values"]: nl2int[v] = score; score += 1\<close>
  and the outer loop over the criteria. \<^verbatim>\<open>nl2int\<close> is one dictionary for all
  criteria, from label to score. The loops stand outside every \<^verbatim>\<open>try\<close>: an exception
  ends the cell.
\<close>

fun values_loop :: "pyval list \<Rightarrow> nat \<Rightarrow> (pyval \<rightharpoonup> nat) \<Rightarrow> py_error + (pyval \<rightharpoonup> nat)" where
  "values_loop [] score nl2int = Inr nl2int"
| "values_loop (v # vs) score nl2int =
     (if py_hashable v then values_loop vs (score + 1) (nl2int(py_key v \<mapsto> score))
      else Inl TypeError)"

fun build_nl2int :: "pyval \<Rightarrow> pyval list \<Rightarrow> (pyval \<rightharpoonup> nat) \<Rightarrow> py_error + (pyval \<rightharpoonup> nat)" where
  "build_nl2int dictionary_for_eval [] nl2int = Inr nl2int"
| "build_nl2int dictionary_for_eval (criterion # rest) nl2int =
     (case py_getitem dictionary_for_eval criterion of
        Inl e \<Rightarrow> Inl e
      | Inr c \<Rightarrow>
     (case py_getitem c (PStr ''accepted_values'') of
        Inl e \<Rightarrow> Inl e
      | Inr accepted \<Rightarrow>
     (case py_iter accepted of
        Inl e \<Rightarrow> Inl e
      | Inr vs \<Rightarrow>
     (case values_loop vs 0 nl2int of
        Inl e \<Rightarrow> Inl e
      | Inr nl2int' \<Rightarrow> build_nl2int dictionary_for_eval rest nl2int'))))"

subsection \<open>The loop over the games\<close>

text \<open>
  \<^verbatim>\<open>nl2int[x]\<close>: \<^verbatim>\<open>TypeError\<close> when \<open>x\<close> cannot be hashed, \<^verbatim>\<open>KeyError\<close> when it is
  not a key.
\<close>

definition nl2int_get :: "(pyval \<rightharpoonup> nat) \<Rightarrow> pyval \<Rightarrow> py_error + nat" where
  "nl2int_get nl2int x =
     (if py_hashable x then
        (case nl2int (py_key x) of None \<Rightarrow> Inl KeyError | Some n \<Rightarrow> Inr n)
      else Inl TypeError)"

text \<open>
  The body of the \<^verbatim>\<open>try\<close> for the game in \<^verbatim>\<open>game\<close>: the exception it raises, if any,
  and the namespace it leaves. Every variable is read from the namespace at the moment
  the cell reads it: \<^verbatim>\<open>outcome[game]["actual_success"]\<close>, \<^verbatim>\<open>criterion\<close>, \<^verbatim>\<open>nl2int\<close>
  and \<^verbatim>\<open>task\<close> after the call of \<^verbatim>\<open>eval\<close>.
\<close>

definition try_game :: "py_evaluator \<Rightarrow> namespace \<Rightarrow> py_error option \<times> namespace" where
  "try_game ev ns =
     (case dict_get (ns_outcome ns) (ns_game ns) of
        Inl e \<Rightarrow> (Some e, ns)
      | Inr game_record \<Rightarrow>
     (case dict_get game_record ''estimated_performance'' of
        Inl e \<Rightarrow> (Some e, ns)
      | Inr estimated \<Rightarrow>
     (case py_eval ev estimated ns of
        (Inl e, ns1) \<Rightarrow> (Some e, ns1)
      | (Inr result, ns1) \<Rightarrow>
     (let ns2 = ns1\<lparr>ns_tmp_dic := result\<rparr> in
      case dict_get (ns_outcome ns2) (ns_game ns2) of
        Inl e \<Rightarrow> (Some e, ns2)
      | Inr game_record' \<Rightarrow>
     (case dict_get game_record' ''actual_success'' of
        Inl e \<Rightarrow> (Some e, ns2)
      | Inr actual \<Rightarrow>
     (case py_getitem (ns_tmp_dic ns2) (ns_criterion ns2) of
        Inl e \<Rightarrow> (Some e, ns2)
      | Inr assigned \<Rightarrow>
     (case nl2int_get (ns_nl2int ns2) assigned of
        Inl e \<Rightarrow> (Some e, ns2)
      | Inr n \<Rightarrow>
          (None,
           if actual = PStr ''false''
           then ns2\<lparr>ns_task := (fst (ns_task ns2), snd (ns_task ns2) @ [n])\<rparr>
           else ns2\<lparr>ns_task := (fst (ns_task ns2) @ [n], snd (ns_task ns2))\<rparr>))))))))"

text \<open>
  One game with its \<^verbatim>\<open>except: pass\<close>: the exception is dropped, what the body did
  before it stays.
\<close>

definition game_step :: "py_evaluator \<Rightarrow> namespace \<Rightarrow> namespace" where
  "game_step ev ns = snd (try_game ev ns)"

text \<open>
  The loop \<^verbatim>\<open>for game in outcome\<close> over the keys the dictionary has when the loop
  starts, \<open>used\<close> being their number. Before each game and at the end the iterator
  raises \<^verbatim>\<open>RuntimeError\<close> when the dictionary has changed its size; the \<^verbatim>\<open>for\<close>
  statement stands outside the \<^verbatim>\<open>try\<close>.
\<close>

fun games_loop :: "py_evaluator \<Rightarrow> nat \<Rightarrow> string list \<Rightarrow> namespace \<Rightarrow> py_error + namespace" where
  "games_loop ev used [] ns =
     (if length (ns_outcome ns) = used then Inr ns else Inl RuntimeError)"
| "games_loop ev used (game # rest) ns =
     (if length (ns_outcome ns) = used
      then games_loop ev used rest (game_step ev (ns\<lparr>ns_game := game\<rparr>))
      else Inl RuntimeError)"

subsection \<open>The loop over the criteria and the cell\<close>

text \<open>
  The numeric library is a parameter: \<open>np_mean\<close> and \<open>stats_sem\<close> on a list of scores,
  and \<open>norm_interval\<close> for \<^verbatim>\<open>stats.norm.interval(0.95, loc, scale)\<close>. They compute in
  floating point and raise nothing (the mean of an empty list is a NaN).
\<close>

record ('r, 'i) numlib =
  np_mean :: "nat list \<Rightarrow> 'r"
  stats_sem :: "nat list \<Rightarrow> 'r"
  norm_interval :: "'r \<Rightarrow> 'r \<Rightarrow> 'i"

text \<open>The four result dictionaries, each from criterion (as a key) to a number.\<close>

record ('r, 'i) averages =
  average_s :: "pyval \<rightharpoonup> 'r"
  average_f :: "pyval \<rightharpoonup> 'r"
  conf_interval_s :: "pyval \<rightharpoonup> 'i"
  conf_interval_f :: "pyval \<rightharpoonup> 'i"

text \<open>
  The loop \<^verbatim>\<open>for criterion in criteria\<close> over the list \<^verbatim>\<open>criteria\<close>. Each round binds
  \<^verbatim>\<open>criterion\<close> and a fresh \<^verbatim>\<open>task\<close>, runs the loop over the games and stores the four
  numbers under \<^verbatim>\<open>criterion\<close> as the namespace then holds it.
\<close>

fun criteria_loop ::
  "('r, 'i) numlib \<Rightarrow> py_evaluator \<Rightarrow> pyval list \<Rightarrow> ('r, 'i) averages \<times> namespace \<Rightarrow>
   py_error + ('r, 'i) averages \<times> namespace" where
  "criteria_loop lib ev [] acc = Inr acc"
| "criteria_loop lib ev (criterion # rest) (results, ns) =
     (let ns1 = ns\<lparr>ns_criterion := criterion, ns_task := ([], [])\<rparr> in
      case games_loop ev (length (ns_outcome ns1)) (map fst (ns_outcome ns1)) ns1 of
        Inl e \<Rightarrow> Inl e
      | Inr ns2 \<Rightarrow>
          if py_hashable (ns_criterion ns2) then
            (let key = py_key (ns_criterion ns2); task = ns_task ns2 in
             criteria_loop lib ev rest
               (\<lparr> average_s = (average_s results)(key \<mapsto> np_mean lib (fst task)),
                  average_f = (average_f results)(key \<mapsto> np_mean lib (snd task)),
                  conf_interval_s = (conf_interval_s results)(key \<mapsto>
                     norm_interval lib (np_mean lib (fst task)) (stats_sem lib (fst task))),
                  conf_interval_f = (conf_interval_f results)(key \<mapsto>
                     norm_interval lib (np_mean lib (snd task)) (stats_sem lib (snd task))) \<rparr>,
                ns2))
          else Inl TypeError)"

text \<open>
  The cell on the criteria file and the namespace it starts in (which holds
  \<^verbatim>\<open>outcome\<close>). \<open>criteria_file\<close> is the text \<^verbatim>\<open>open(criteria_file, "r").read()\<close>
  returns, \<open>None\<close> when it raises. The first statement reads and evaluates the text
  under \<^verbatim>\<open>try\<close> and \<^verbatim>\<open>except: pass\<close>: when the file cannot be read or \<^verbatim>\<open>eval\<close>
  raises, \<^verbatim>\<open>dictionary_for_eval\<close> keeps what it was bound to, and reading it unbound
  raises \<^verbatim>\<open>NameError\<close>. The result is the exception that ends the cell, or the four
  dictionaries with the namespace the cell leaves.
\<close>

definition aggregate ::
  "('r, 'i) numlib \<Rightarrow> py_evaluator \<Rightarrow> string option \<Rightarrow> namespace \<Rightarrow>
   py_error + ('r, 'i) averages \<times> namespace" where
  "aggregate lib ev criteria_file ns =
     (let ns1 = (case criteria_file of
                   None \<Rightarrow> ns
                 | Some criteria_text \<Rightarrow>
                (case ev criteria_text ns of
                   (Inl e, ns') \<Rightarrow> ns'
                 | (Inr result, ns') \<Rightarrow> ns'\<lparr>ns_dictionary_for_eval := Some result\<rparr>))
      in case ns_dictionary_for_eval ns1 of
           None \<Rightarrow> Inl NameError
         | Some dictionary_for_eval \<Rightarrow>
        (case py_keys dictionary_for_eval of
           Inl e \<Rightarrow> Inl e
         | Inr criteria \<Rightarrow>
        (case py_iter dictionary_for_eval of
           Inl e \<Rightarrow> Inl e
         | Inr keys \<Rightarrow>
        (case build_nl2int dictionary_for_eval keys Map.empty of
           Inl e \<Rightarrow> Inl e
         | Inr nl2int \<Rightarrow>
             criteria_loop lib ev criteria
               (\<lparr> average_s = Map.empty, average_f = Map.empty,
                  conf_interval_s = Map.empty, conf_interval_f = Map.empty \<rparr>,
                ns1\<lparr>ns_nl2int := nl2int\<rparr>)))))"

section \<open>The criteria of a store\<close>

text \<open>
  A criterion as the criteria document holds it under its name, and a Criteria Store: the
  criteria by name, in the order of the document.
\<close>

record criterion =
  description :: string
  accepted_values :: "string list"

type_synonym criteria_dict = "(string \<times> criterion) list"

section \<open>The persisted criteria document: \<open>serialize\<close> and \<open>deserialize\<close>\<close>

text \<open>
  \<^verbatim>\<open>Criterion.write_json\<close> and \<^verbatim>\<open>Criterion.parse_json_str\<close> are called by cells 9, 12
  and 18 and defined in the package, outside the notebook. This section models them from
  the specification: a Criteria Store is the list of its criteria by name, in insertion
  order, and the persisted document is a JSON object from criterion name to an object
  with the fields \<^verbatim>\<open>description\<close> and \<^verbatim>\<open>accepted_values\<close>.
\<close>

text \<open>
  Modelled from the spec: the error kind \<^verbatim>\<open>MalformedCriteriaDocument\<close> of
  \<^verbatim>\<open>deserialize\<close>, which the notebook does not define.
\<close>

datatype load_error = MalformedCriteriaDocument

text \<open>
  Modelled from the spec: the invariant of a Criteria Store, which no code of the notebook
  checks. Names are not empty and unique within the store; the accepted values of every
  criterion are not empty and hold no label twice.
\<close>

definition valid_store :: "criteria_dict \<Rightarrow> bool" where
  "valid_store store =
     (distinct (map fst store) \<and>
      list_all (\<lambda>(name, c). name \<noteq> [] \<and> accepted_values c \<noteq> [] \<and> distinct (accepted_values c)) store)"

text \<open>
  Modelled from the spec: the tokens of the structured text, for the writer and the reader
  that the notebook imports. The document holds objects, arrays and strings only.
\<close>

datatype token = TLBrace | TRBrace | TLBrack | TRBrack | TColon | TComma | TString string

text \<open>
  Modelled from the spec: the lower-case hexadecimal digit of a number below 16, for the
  missing writer's \<^verbatim>\<open>\u00XX\<close> escapes.
\<close>

definition hex_digit :: "nat \<Rightarrow> char" where
  "hex_digit n = (if n < 10 then char_of (48 + n) else char_of (87 + n))"

text \<open>
  Modelled from the spec: the value of a hexadecimal digit in either case, for the missing
  reader's \<^verbatim>\<open>\uXXXX\<close> escapes.
\<close>

definition hex_val :: "char \<Rightarrow> nat option" where
  "hex_val c =
     (let k = (of_char c :: nat)
      in if 48 \<le> k \<and> k \<le> 57 then Some (k - 48)
         else if 97 \<le> k \<and> k \<le> 102 then Some (k - 87)
         else if 65 \<le> k \<and> k \<le> 70 then Some (k - 55)
         else None)"

text \<open>
  Modelled from the spec: how the missing writer puts one character of a text inside a
  JSON string. The quote and the backslash are escaped, the usual control characters have
  their short escapes, and every other character outside the printable ASCII range is
  written as \<^verbatim>\<open>\u00XX\<close>.
\<close>

definition escape_char :: "char \<Rightarrow> string" where
  "escape_char c =
     (let k = (of_char c :: nat)
      in if c = CHR 0x22 then [CHR 0x5C, CHR 0x22]
         else if c = CHR 0x5C then [CHR 0x5C, CHR 0x5C]
         else if c = CHR 0x0A then [CHR 0x5C, CHR ''n'']
         else if c = CHR 0x0D then [CHR 0x5C, CHR ''r'']
         else if c = CHR 0x09 then [CHR 0x5C, CHR ''t'']
         else if c = CHR 0x08 then [CHR 0x5C, CHR ''b'']
         else if c = CHR 0x0C then [CHR 0x5C, CHR ''f'']
         else if k < 32 \<or> 126 < k then
           [CHR 0x5C, CHR ''u'', CHR ''0'', CHR ''0'', hex_digit (k div 16), hex_digit (k mod 16)]
         else [c])"

text \<open>Modelled from the spec: a text as a JSON string, as the missing writer emits it.\<close>

definition write_string :: "string \<Rightarrow> string" where
  "write_string s = CHR 0x22 # concat (map escape_char s) @ [CHR 0x22]"

text \<open>
  Modelled from the spec: the text of one token in the missing writer's output; a comma
  and a colon are followed by a space.
\<close>

fun render_token :: "token \<Rightarrow> string" where
  "render_token TLBrace = ''{''"
| "render_token TRBrace = ''}''"
| "render_token TLBrack = ''[''"
| "render_token TRBrack = '']''"
| "render_token TColon = '': ''"
| "render_token TComma = '', ''"
| "render_token (TString s) = write_string s"

text \<open>
  Modelled from the spec: the tokens of a list of items with commas between them, for the
  missing writer.
\<close>

fun separated :: "token list list \<Rightarrow> token list" where
  "separated [] = []"
| "separated [x] = x"
| "separated (x # y # rest) = x @ TComma # separated (y # rest)"

text \<open>
  Modelled from the spec: the tokens of one criterion, an object with the field
  \<^verbatim>\<open>description\<close> (a text) and the field \<^verbatim>\<open>accepted_values\<close> (the labels in their
  order).
\<close>

definition criterion_tokens :: "criterion \<Rightarrow> token list" where
  "criterion_tokens c =
     [TLBrace, TString ''description'', TColon, TString (description c), TComma,
      TString ''accepted_values'', TColon, TLBrack] @
     separated (map (\<lambda>v. [TString v]) (accepted_values c)) @ [TRBrack, TRBrace]"

text \<open>
  Modelled from the spec: the tokens of the persisted document, an object from criterion
  name to criterion in the order of the store.
\<close>

definition document_tokens :: "criteria_dict \<Rightarrow> token list" where
  "document_tokens store =
     TLBrace # separated (map (\<lambda>(name, c). TString name # TColon # criterion_tokens c) store) @
     [TRBrace]"

text \<open>
  Modelled from the spec: \<^verbatim>\<open>serialize(store)\<close>, the contract of
  \<^verbatim>\<open>Criterion.write_json\<close>, whose code is not in the notebook.
\<close>

definition serialize :: "criteria_dict \<Rightarrow> string" where
  "serialize store = concat (map render_token (document_tokens store))"

text \<open>
  Modelled from the spec: the character an escape letter stands for, in the missing
  reader.
\<close>

definition unescape :: "char \<Rightarrow> char option" where
  "unescape e =
     (if e = CHR 0x22 then Some (CHR 0x22)
      else if e = CHR 0x5C then Some (CHR 0x5C)
      else if e = CHR ''/'' then Some (CHR ''/'')
      else if e = CHR ''n'' then Some (CHR 0x0A)
      else if e = CHR ''r'' then Some (CHR 0x0D)
      else if e = CHR ''t'' then Some (CHR 0x09)
      else if e = CHR ''b'' then Some (CHR 0x08)
      else if e = CHR ''f'' then Some (CHR 0x0C)
      else None)"

text \<open>
  Modelled from the spec: the code point of a \<^verbatim>\<open>\uXXXX\<close> escape in the missing reader;
  \<open>None\<close> when a digit is not hexadecimal.
\<close>

definition hex4 :: "char \<Rightarrow> char \<Rightarrow> char \<Rightarrow> char \<Rightarrow> nat option" where
  "hex4 a b c d =
     (case (hex_val a, hex_val b, hex_val c, hex_val d) of
        (Some x, Some y, Some z, Some w) \<Rightarrow> Some (((x * 16 + y) * 16 + z) * 16 + w)
      | _ \<Rightarrow> None)"

text \<open>
  Modelled from the spec: the missing reader on the inside of a JSON string, from the
  character after the opening quote: the text and the input after the closing quote. It
  fails on an unterminated string, an unknown escape, a raw control character and a code
  point beyond the characters of this model.
\<close>

fun lex_string_body :: "string \<Rightarrow> (string \<times> string) option" where
  "lex_string_body [] = None"
| "lex_string_body (c # cs) =
     (if c = CHR 0x22 then Some ([], cs)
      else if c = CHR 0x5C then
        (case cs of
           [] \<Rightarrow> None
         | e # cs' \<Rightarrow>
             if e = CHR ''u'' then
               (case cs' of
                  h1 # h2 # h3 # h4 # cs'' \<Rightarrow>
                    (case hex4 h1 h2 h3 h4 of
                       None \<Rightarrow> None
                     | Some n \<Rightarrow>
                         if n < 256
                         then map_option (\<lambda>(s, rest). (char_of n # s, rest)) (lex_string_body cs'')
                         else None)
                | _ \<Rightarrow> None)
             else
               (case unescape e of
                  None \<Rightarrow> None
                | Some ch \<Rightarrow> map_option (\<lambda>(s, rest). (ch # s, rest)) (lex_string_body cs')))
      else if (of_char c :: nat) < 32 then None
      else map_option (\<lambda>(s, rest). (c # s, rest)) (lex_string_body cs))"

text \<open>Modelled from the spec: the white space the missing reader skips between tokens.\<close>

definition json_space :: "char \<Rightarrow> bool" where
  "json_space c = (c = CHR '' '' \<or> c = CHR 0x0A \<or> c = CHR 0x0D \<or> c = CHR 0x09)"

text \<open>
  Modelled from the spec: the punctuation tokens of the missing reader.
\<close>

definition punctuation :: "char \<Rightarrow> token option" where
  "punctuation c =
     (if c = CHR ''{'' then Some TLBrace
      else if c = CHR ''}'' then Some TRBrace
      else if c = CHR ''['' then Some TLBrack
      else if c = CHR '']'' then Some TRBrack
      else if c = CHR '':'' then Some TColon
      else if c = CHR '','' then Some TComma
      else None)"

lemma lex_string_body_shorter:
  "lex_string_body cs = Some (s, rest) \<Longrightarrow> length rest < length cs"
proof (induction cs arbitrary: s rest rule: lex_string_body.induct)
  case 1
  then show ?case by simp
next
  case (2 c cs)
  then show ?case
    by (fastforce split: if_splits list.splits option.splits)
qed

text \<open>
  Modelled from the spec: the missing reader's split of a text into tokens; \<open>None\<close> when the
  text holds anything but white space, punctuation and strings.
\<close>

function lex :: "string \<Rightarrow> token list option" where
  "lex [] = Some []"
| "lex (c # cs) =
     (if json_space c then lex cs
      else if c = CHR 0x22 then
        (case lex_string_body cs of
           None \<Rightarrow> None
         | Some (s, rest) \<Rightarrow> map_option (\<lambda>ts. TString s # ts) (lex rest))
      else
        (case punctuation c of
           None \<Rightarrow> None
         | Some t \<Rightarrow> map_option (\<lambda>ts. t # ts) (lex cs)))"
  by pat_completeness auto
termination
  by (relation "measure length") (auto dest: lex_string_body_shorter)

text \<open>
  Modelled from the spec: the missing reader on an array of strings after its first
  element: further elements, each after a comma, up to the closing bracket.
\<close>

fun parse_more_strings :: "token list \<Rightarrow> (string list \<times> token list) option" where
  "parse_more_strings (TRBrack # ts) = Some ([], ts)"
| "parse_more_strings (TComma # TString s # ts) =
     map_option (\<lambda>(vs, rest). (s # vs, rest)) (parse_more_strings ts)"
| "parse_more_strings _ = None"

text \<open>
  Modelled from the spec: the missing reader on an array of strings, from the token after
  the opening bracket.
\<close>

fun parse_strings :: "token list \<Rightarrow> (string list \<times> token list) option" where
  "parse_strings (TRBrack # ts) = Some ([], ts)"
| "parse_strings (TString s # ts) =
     map_option (\<lambda>(vs, rest). (s # vs, rest)) (parse_more_strings ts)"
| "parse_strings _ = None"

text \<open>
  Modelled from the spec: the value of a field of a criterion record as read, a text or a
  list of texts; the schema of the document has no other value.
\<close>

datatype field_value = FText string | FList "string list"

text \<open>Modelled from the spec: the missing reader on the value of one field.\<close>

fun parse_field_value :: "token list \<Rightarrow> (field_value \<times> token list) option" where
  "parse_field_value (TString s # ts) = Some (FText s, ts)"
| "parse_field_value (TLBrack # ts) = map_option (\<lambda>(vs, rest). (FList vs, rest)) (parse_strings ts)"
| "parse_field_value _ = None"

lemma parse_more_strings_shorter:
  "parse_more_strings ts = Some (vs, rest) \<Longrightarrow> length rest < length ts"
  by (induction ts arbitrary: vs rest rule: parse_more_strings.induct) fastforce+

lemma parse_strings_shorter:
  "parse_strings ts = Some (vs, rest) \<Longrightarrow> length rest < length ts"
  by (induction ts arbitrary: vs rest rule: parse_strings.induct)
     (fastforce dest: parse_more_strings_shorter)+

lemma parse_field_value_shorter:
  "parse_field_value ts = Some (v, rest) \<Longrightarrow> length rest < length ts"
  by (induction ts arbitrary: v rest rule: parse_field_value.induct)
     (fastforce dest: parse_strings_shorter)+

text \<open>
  Modelled from the spec: the missing reader on the fields of a criterion record after the
  first field, up to the closing brace.
\<close>

function (sequential) parse_more_fields ::
  "token list \<Rightarrow> ((string \<times> field_value) list \<times> token list) option" where
  "parse_more_fields (TRBrace # ts) = Some ([], ts)"
| "parse_more_fields (TComma # TString k # TColon # ts) =
     (case parse_field_value ts of
        None \<Rightarrow> None
      | Some (v, rest) \<Rightarrow> map_option (\<lambda>(fs, rest'). ((k, v) # fs, rest')) (parse_more_fields rest))"
| "parse_more_fields _ = None"
  by pat_completeness auto
termination
  by (relation "measure length") (auto dest: parse_field_value_shorter)

text \<open>
  Modelled from the spec: the missing reader on a criterion record, from the token after
  the opening brace: the fields in the order of the text.
\<close>

fun parse_fields :: "token list \<Rightarrow> ((string \<times> field_value) list \<times> token list) option" where
  "parse_fields (TRBrace # ts) = Some ([], ts)"
| "parse_fields (TString k # TColon # ts) =
     (case parse_field_value ts of
        None \<Rightarrow> None
      | Some (v, rest) \<Rightarrow> map_option (\<lambda>(fs, rest'). ((k, v) # fs, rest')) (parse_more_fields rest))"
| "parse_fields _ = None"

lemma parse_more_fields_shorter:
  "parse_more_fields ts = Some (fs, rest) \<Longrightarrow> length rest < length ts"
  by (induction ts arbitrary: fs rest rule: parse_more_fields.induct)
     (fastforce split: option.splits dest: parse_field_value_shorter)+

lemma parse_fields_shorter:
  "parse_fields ts = Some (fs, rest) \<Longrightarrow> length rest < length ts"
  by (induction ts arbitrary: fs rest rule: parse_fields.induct)
     (fastforce split: option.splits dest: parse_field_value_shorter parse_more_fields_shorter)+

text \<open>
  Modelled from the spec: the missing reader on the entries of the document after the
  first entry, each a name, a colon and a criterion record, up to the closing brace.
\<close>

function (sequential) parse_more_entries ::
  "token list \<Rightarrow> ((string \<times> (string \<times> field_value) list) list \<times> token list) option" where
  "parse_more_entries (TRBrace # ts) = Some ([], ts)"
| "parse_more_entries (TComma # TString name # TColon # TLBrace # ts) =
     (case parse_fields ts of
        None \<Rightarrow> None
      | Some (fs, rest) \<Rightarrow>
          map_option (\<lambda>(es, rest'). ((name, fs) # es, rest')) (parse_more_entries rest))"
| "parse_more_entries _ = None"
  by pat_completeness auto
termination
  by (relation "measure length") (auto dest: parse_fields_shorter)

text \<open>
  Modelled from the spec: the missing reader on the entries of the document, from the
  token after the opening brace.
\<close>

fun parse_entries ::
  "token list \<Rightarrow> ((string \<times> (string \<times> field_value) list) list \<times> token list) option" where
  "parse_entries (TRBrace # ts) = Some ([], ts)"
| "parse_entries (TString name # TColon # TLBrace # ts) =
     (case parse_fields ts of
        None \<Rightarrow> None
      | Some (fs, rest) \<Rightarrow>
          map_option (\<lambda>(es, rest'). ((name, fs) # es, rest')) (parse_more_entries rest))"
| "parse_entries _ = None"

text \<open>
  Modelled from the spec: the missing reader on a whole document: one object and nothing
  after it.
\<close>

fun parse_document :: "token list \<Rightarrow> (string \<times> (string \<times> field_value) list) list option" where
  "parse_document (TLBrace # ts) =
     (case parse_entries ts of Some (es, []) \<Rightarrow> Some es | _ \<Rightarrow> None)"
| "parse_document _ = None"

text \<open>
  Modelled from the spec: the schema check of one record. A field must not occur twice;
  \<^verbatim>\<open>description\<close> must be there as a text and \<^verbatim>\<open>accepted_values\<close> as a list of texts
  that is not empty and holds no label twice.
\<close>

definition criterion_of_fields :: "(string \<times> field_value) list \<Rightarrow> criterion option" where
  "criterion_of_fields fs =
     (if distinct (map fst fs) then
        (case (map_of fs ''description'', map_of fs ''accepted_values'') of
           (Some (FText d), Some (FList vs)) \<Rightarrow>
             if vs \<noteq> [] \<and> distinct vs then Some \<lparr>description = d, accepted_values = vs\<rparr> else None
         | _ \<Rightarrow> None)
      else None)"

text \<open>
  Modelled from the spec: the schema check of the entries in their order; a record must
  have a name that is not empty.
\<close>

fun store_of_entries :: "(string \<times> (string \<times> field_value) list) list \<Rightarrow> criteria_dict option" where
  "store_of_entries [] = Some []"
| "store_of_entries ((name, fs) # es) =
     (if name = [] then None
      else (case criterion_of_fields fs of
              None \<Rightarrow> None
            | Some c \<Rightarrow> map_option (\<lambda>store. (name, c) # store) (store_of_entries es)))"

text \<open>
  Modelled from the spec: \<^verbatim>\<open>deserialize(text)\<close>, the contract of
  \<^verbatim>\<open>Criterion.parse_json_str\<close>, whose code is not in the notebook. The text is split
  into tokens, read as a document and checked against the schema; a name that occurs
  twice is not a mapping. Every failure is \<^verbatim>\<open>MalformedCriteriaDocument\<close>.
\<close>

definition deserialize :: "string \<Rightarrow> load_error + criteria_dict" where
  "deserialize doc =
     (case lex doc of
        None \<Rightarrow> Inl MalformedCriteriaDocument
      | Some ts \<Rightarrow>
          (case parse_document ts of
             None \<Rightarrow> Inl MalformedCriteriaDocument
           | Some es \<Rightarrow>
               (case store_of_entries es of
                  None \<Rightarrow> Inl MalformedCriteriaDocument
                | Some store \<Rightarrow>
                    if distinct (map fst store) then Inr store
                    else Inl MalformedCriteriaDocument)))"

section \<open>Notions used in the statements\<close>

text \<open>
  The shape of the lines \<open>readlines\<close> returns: a line is not empty and holds a newline
  at its end only, and every line but the last ends with one.
\<close>

definition line_ok :: "string \<Rightarrow> bool" where
  "line_ok l = (l \<noteq> [] \<and> CHR 0x0A \<notin> set (butlast l))"

definition lines_ok :: "string list \<Rightarrow> bool" where
  "lines_ok ls = ((\<forall>l \<in> set ls. line_ok l) \<and> (\<forall>l \<in> set (butlast ls). last l = CHR 0x0A))"


text \<open>
  The test cases of a batch in the order the two loops reach them: the identifier and
  the path of every file whose name ends in \<^verbatim>\<open>.json\<close>. \<open>items_run\<close> is the batch
  loop over that list.
\<close>

definition batch_items :: "string \<Rightarrow> (string \<times> string list) list \<Rightarrow> (string \<times> string) list" where
  "batch_items log_path log_dirs =
     concat (map (\<lambda>(dir_prefix, file_names).
        map (\<lambda>file_name. (dir_prefix @ ''_'' @ file_name, log_path @ ''/'' @ dir_prefix @ ''/'' @ file_name))
          (filter (\<lambda>file_name. last (py_split (CHR ''.'') file_name) = ''json'') file_names)) log_dirs)"

fun items_run ::
  "(string \<Rightarrow> py_error + 't) \<Rightarrow> ('t \<Rightarrow> py_error + 'q) \<Rightarrow> (string \<times> string) list \<Rightarrow>
   'q batch_state \<Rightarrow> 'q batch_state \<times> py_error option" where
  "items_run create_from_file quantify [] st = (st, None)"
| "items_run create_from_file quantify ((gameid, path) # rest) (outcome, called) =
     (case create_from_file path of
        Inl e \<Rightarrow> ((outcome, called), Some e)
      | Inr test_case \<Rightarrow>
          (case quantify test_case of
             Inl e \<Rightarrow> ((outcome, called @ [gameid]), Some e)
           | Inr quantifier_output \<Rightarrow> items_run create_from_file quantify rest (outcome, called @ [gameid])))"


text \<open>
  The dictionary a criteria document of the documented shape evaluates to: each name with
  its \<^verbatim>\<open>description\<close> and the list of its \<^verbatim>\<open>accepted_values\<close>.
\<close>

definition store_value :: "criteria_dict \<Rightarrow> pyval" where
  "store_value store =
     PDict (map (\<lambda>(name, c).
       (PStr name,
        PDict [(PStr ''description'', PStr (description c)),
               (PStr ''accepted_values'', PList (map PStr (accepted_values c)))])) store)"

text \<open>
  The score table of such a document, label by label: the labels of each criterion are
  numbered from 0 in their order, a later entry for a label replacing an earlier one.
\<close>

fun label_scores :: "string list \<Rightarrow> nat \<Rightarrow> (string \<rightharpoonup> nat) \<Rightarrow> (string \<rightharpoonup> nat)" where
  "label_scores [] score table = table"
| "label_scores (v # vs) score table = label_scores vs (score + 1) (table(v \<mapsto> score))"

fun label_table :: "criteria_dict \<Rightarrow> (string \<rightharpoonup> nat) \<Rightarrow> (string \<rightharpoonup> nat)" where
  "label_table [] table = table"
| "label_table ((name, c) # rest) table = label_table rest (label_scores (accepted_values c) 0 table)"

text \<open>
  A text evaluates purely when \<^verbatim>\<open>eval\<close> gives the same result in every namespace and
  leaves the namespace as it was, as a dictionary literal does. The texts of a batch do
  so when each \<^verbatim>\<open>estimated_performance\<close> that is a string evaluates purely, to \<open>rv\<close> of
  the text.
\<close>

definition evaluates_purely :: "py_evaluator \<Rightarrow> string \<Rightarrow> py_error + pyval \<Rightarrow> bool" where
  "evaluates_purely ev s result = (\<forall>ns. ev s ns = (result, ns))"

definition pure_batch ::
  "py_evaluator \<Rightarrow> (string \<Rightarrow> py_error + pyval) \<Rightarrow> (string \<times> (string \<times> pyval) list) list \<Rightarrow> bool" where
  "pure_batch ev rv outcome =
     (\<forall>(game, game_record) \<in> set outcome. \<forall>s.
        map_of game_record ''estimated_performance'' = Some (PStr s) \<longrightarrow> evaluates_purely ev s (rv s))"

text \<open>
  What a record of \<^verbatim>\<open>outcome\<close> says about the criterion \<open>criterion\<close> when its text
  evaluates to \<open>rv\<close> of it: the label it assigns (when \<^verbatim>\<open>estimated_performance\<close> is a
  string that evaluates to a dictionary holding the criterion with a string), the score
  of that label in a table (when the record also has \<^verbatim>\<open>actual_success\<close>), and the
  scores of a partition in the order of the records.
\<close>

definition assigned_label ::
  "(string \<Rightarrow> py_error + pyval) \<Rightarrow> string \<Rightarrow> (string \<times> pyval) list \<Rightarrow> string option" where
  "assigned_label rv criterion game_record =
     (case map_of game_record ''estimated_performance'' of
        Some (PStr s) \<Rightarrow>
          (case rv s of
             Inr (PDict d) \<Rightarrow>
               (case map_of (map (\<lambda>(k, v). (py_key k, v)) d) (PStr criterion) of
                  Some (PStr v) \<Rightarrow> Some v
                | _ \<Rightarrow> None)
           | _ \<Rightarrow> None)
      | _ \<Rightarrow> None)"

definition record_score ::
  "(string \<Rightarrow> py_error + pyval) \<Rightarrow> (string \<rightharpoonup> nat) \<Rightarrow> string \<Rightarrow> (string \<times> pyval) list \<Rightarrow> nat option" where
  "record_score rv table criterion game_record =
     (case map_of game_record ''actual_success'' of
        None \<Rightarrow> None
      | Some actual \<Rightarrow>
          (case assigned_label rv criterion game_record of None \<Rightarrow> None | Some v \<Rightarrow> table v))"

definition partition_scores ::
  "bool \<Rightarrow> (string \<Rightarrow> py_error + pyval) \<Rightarrow> (string \<rightharpoonup> nat) \<Rightarrow> string \<Rightarrow>
   (string \<times> (string \<times> pyval) list) list \<Rightarrow> nat list" where
  "partition_scores failed rv table criterion outcome =
     List.map_filter (\<lambda>(game, game_record).
        if (map_of game_record ''actual_success'' = Some (PStr ''false'')) = failed
        then record_score rv table criterion game_record else None) outcome"

text \<open>
  A table is string keyed when every key is a string, as the table of a document of the
  documented shape is. \<open>step_task\<close> is what one record does to the two lists of
  \<^verbatim>\<open>task\<close> when its text evaluates purely.
\<close>

definition string_keyed :: "(pyval \<rightharpoonup> nat) \<Rightarrow> bool" where
  "string_keyed nl = (\<forall>k n. nl k = Some n \<longrightarrow> (\<exists>v. k = PStr v))"


definition step_task ::
  "(string \<Rightarrow> py_error + pyval) \<Rightarrow> (string \<rightharpoonup> nat) \<Rightarrow> string \<Rightarrow> (string \<times> pyval) list \<Rightarrow>
   nat list \<times> nat list \<Rightarrow> nat list \<times> nat list" where
  "step_task rv table c r task =
     (case record_score rv table c r of
        None \<Rightarrow> task
      | Some n \<Rightarrow>
          if map_of r ''actual_success'' = Some (PStr ''false'') then (fst task, snd task @ [n])
          else (fst task @ [n], snd task))"


text \<open>
  For the examples: the namespace of a notebook in which only \<^verbatim>\<open>outcome\<close> is bound to
  something the cell uses, and a numeric library that returns the list of scores it is
  given, so that a result shows the scores a statistic is computed from.
\<close>

abbreviation fresh_namespace :: "(string \<times> (string \<times> pyval) list) list \<Rightarrow> namespace" where
  "fresh_namespace outcome \<equiv>
     \<lparr>ns_dictionary_for_eval = None, ns_outcome = outcome, ns_nl2int = Map.empty,
      ns_criterion = PNone, ns_task = ([], []), ns_game = [], ns_tmp_dic = PNone\<rparr>"

abbreviation list_lib :: "(nat list, nat list \<times> nat list) numlib" where
  "list_lib \<equiv> \<lparr>np_mean = \<lambda>xs. xs, stats_sem = \<lambda>xs. xs, norm_interval = \<lambda>m s. (m, s)\<rparr>"


text \<open>
  For the persisted document: the tokens of items that each follow a comma, and the
  entry a criterion is read back as, before the schema check.
\<close>

fun comma_each :: "token list list \<Rightarrow> token list" where
  "comma_each [] = []"
| "comma_each (x # xs) = TComma # x @ comma_each xs"

definition entry_of :: "string \<times> criterion \<Rightarrow> string \<times> (string \<times> field_value) list" where
  "entry_of = (\<lambda>(name, c).
     (name, [(''description'', FText (description c)), (''accepted_values'', FList (accepted_values c))]))"

section \<open>Properties of the string operations\<close>

text \<open>\<^verbatim>\<open>s.split(sep)\<close> has at least one piece, so \<^verbatim>\<open>s.split(sep)[-1]\<close> never raises.\<close>

lemma py_split_nonempty: "py_split sep s \<noteq> []"
  by (induction s) (auto split: list.splits)

lemma py_last_split: "py_last (py_split sep s) = Inr (last (py_split sep s))"
  using py_split_nonempty [of sep s] by (simp add: py_last_def split: list.splits)

text \<open>
  The last piece of \<^verbatim>\<open>s.split(sep)\<close> is what follows the last separator, or all of \<open>s\<close>
  when it holds none.
\<close>

lemma py_split_no_sep: "sep \<notin> set s \<Longrightarrow> py_split sep s = [s]"
  by (induction s) auto

lemma last_py_split_append:
  "last (py_split sep (a @ sep # b)) = last (py_split sep b)"
proof (induction a)
  case Nil
  show ?case using py_split_nonempty [of sep b] by simp
next
  case (Cons c a)
  have ne: "py_split sep (a @ sep # b) \<noteq> []" by (rule py_split_nonempty)
  show ?case
  proof (cases "c = sep")
    case True
    with ne Cons show ?thesis by simp
  next
    case False
    obtain p ps where ps: "py_split sep (a @ sep # b) = p # ps"
      using ne by (cases "py_split sep (a @ sep # b)") auto
    have "ps \<noteq> []"
    proof
      assume "ps = []"
      with ps have "length (py_split sep (a @ sep # b)) = 1" by simp
      moreover have "length (py_split sep (a @ sep # b)) \<ge> 2"
      proof (induction a)
        case Nil
        show ?case using py_split_nonempty [of sep b] by (cases "py_split sep b") auto
      next
        case (Cons d a)
        then show ?case by (auto split: list.splits)
      qed
      ultimately show False by simp
    qed
    with False ps Cons show ?thesis by simp
  qed
qed

lemma last_py_split:
  "(sep \<notin> set s \<and> last (py_split sep s) = s) \<or>
   (\<exists>a b. s = a @ sep # b \<and> sep \<notin> set b \<and> last (py_split sep s) = b)"
proof (cases "sep \<in> set s")
  case False
  then show ?thesis by (simp add: py_split_no_sep)
next
  case True
  from split_list_last [OF this] obtain a b where s: "s = a @ sep # b" and b: "sep \<notin> set b"
    by blast
  have "last (py_split sep s) = b"
    by (simp add: s last_py_split_append py_split_no_sep [OF b])
  with s b show ?thesis by blast
qed


text \<open>
  \<^verbatim>\<open>s.rstrip().strip()\<close> takes white space off both ends and nothing else, and the
  white space of \<open>py_isspace\<close> is the twelve characters below.
\<close>

lemma py_rstrip_idem: "py_rstrip (py_rstrip s) = py_rstrip s"
proof -
  have "dropWhile py_isspace (dropWhile py_isspace (rev s)) = dropWhile py_isspace (rev s)"
    by (cases "dropWhile py_isspace (rev s)") (auto dest: hd_dropWhile [of py_isspace "rev s"] simp: dropWhile_eq_Cons_conv)
  then show ?thesis by (simp add: py_rstrip_def)
qed

lemma strip_decomposition:
  "\<exists>left right. piece = left @ py_strip (py_rstrip piece) @ right \<and>
     (\<forall>c \<in> set left. py_isspace c) \<and> (\<forall>c \<in> set right. py_isspace c) \<and>
     (py_strip (py_rstrip piece) = [] \<or>
      (\<not> py_isspace (hd (py_strip (py_rstrip piece))) \<and> \<not> py_isspace (last (py_strip (py_rstrip piece)))))"
proof -
  let ?r = "py_rstrip piece"
  let ?lab = "dropWhile py_isspace ?r"
  let ?left = "takeWhile py_isspace ?r"
  let ?right = "rev (takeWhile py_isspace (rev piece))"
  have lab: "py_strip (py_rstrip piece) = ?lab"
    by (simp add: py_strip_def py_lstrip_def py_rstrip_idem)
  have "rev piece = takeWhile py_isspace (rev piece) @ dropWhile py_isspace (rev piece)" by simp
  then have "piece = rev (dropWhile py_isspace (rev piece)) @ ?right"
    by (metis rev_append rev_rev_ident)
  then have "piece = ?r @ ?right"
    by (simp add: py_rstrip_def)
  moreover have "?r = ?left @ ?lab" by simp
  ultimately have p: "piece = ?left @ ?lab @ ?right"
    by (metis append.assoc)
  have l: "\<forall>c \<in> set ?left. py_isspace c" by (auto dest: set_takeWhileD)
  have r: "\<forall>c \<in> set ?right. py_isspace c" by (auto dest: set_takeWhileD)
  have ends: "\<not> py_isspace (hd ?lab) \<and> \<not> py_isspace (last ?lab)" if ne: "?lab \<noteq> []"
  proof
    show "\<not> py_isspace (hd ?lab)" using ne by (rule hd_dropWhile)
    have rne: "?r \<noteq> []" using ne by auto
    have "last ?lab = last ?r" using ne by (metis last_appendR takeWhile_dropWhile_id)
    also have "\<dots> = hd (dropWhile py_isspace (rev piece))"
      using rne by (simp add: py_rstrip_def last_rev)
    finally show "\<not> py_isspace (last ?lab)"
      using rne hd_dropWhile [of py_isspace "rev piece"] by (simp add: py_rstrip_def)
  qed
  show ?thesis
    unfolding lab using p l r ends by blast
qed

lemma py_isspace_set:
  "py_isspace c \<longleftrightarrow>
     c \<in> {CHR 0x09, CHR 0x0A, CHR 0x0B, CHR 0x0C, CHR 0x0D, CHR 0x1C, CHR 0x1D, CHR 0x1E, CHR 0x1F,
          CHR 0x20, CHR 0x85, CHR 0xA0}"
proof -
  let ?n = "of_char c :: nat"
  have c: "c = char_of ?n" by simp
  have "(c = char_of (k::nat)) \<longleftrightarrow> ?n = k" if "k < 256" for k
    using that by (metis c of_char_of mod_less)
  note eq = this
  have "py_isspace c \<longleftrightarrow> ?n \<in> {9, 10, 11, 12, 13, 28, 29, 30, 31, 32, 133, 160}"
    unfolding py_isspace_def Let_def by auto
  also have "\<dots> \<longleftrightarrow> c \<in> {char_of (9::nat), char_of (10::nat), char_of (11::nat), char_of (12::nat),
      char_of (13::nat), char_of (28::nat), char_of (29::nat), char_of (30::nat), char_of (31::nat),
      char_of (32::nat), char_of (133::nat), char_of (160::nat)}"
    by (simp add: eq)
  also have "\<dots> \<longleftrightarrow> c \<in> {CHR 0x09, CHR 0x0A, CHR 0x0B, CHR 0x0C, CHR 0x0D, CHR 0x1C, CHR 0x1D, CHR 0x1E, CHR 0x1F,
          CHR 0x20, CHR 0x85, CHR 0xA0}"
    by code_simp
  finally show ?thesis .
qed

section \<open>Properties of \<open>read_without_groundtruth\<close>\<close>

lemma lines_ok_Nil: "lines_ok []"
  by (simp add: lines_ok_def)

lemma lines_ok_Cons:
  "lines_ok (l # ls) \<longleftrightarrow> line_ok l \<and> (ls \<noteq> [] \<longrightarrow> last l = CHR 0x0A) \<and> lines_ok ls"
  by (cases ls) (auto simp: lines_ok_def)

lemma readlines_lines_ok: "lines_ok (readlines s)"
proof (induction s)
  case Nil
  show ?case by (simp add: lines_ok_Nil)
next
  case (Cons c cs)
  show ?case
  proof (cases "c = CHR 0x0A")
    case True
    with Cons show ?thesis by (simp add: lines_ok_Cons line_ok_def)
  next
    case False
    show ?thesis
    proof (cases "readlines cs")
      case Nil
      with False show ?thesis by (simp add: lines_ok_Cons line_ok_def lines_ok_Nil)
    next
      case (Cons l ls)
      with Cons.IH have "lines_ok (l # ls)" by simp
      with False Cons show ?thesis
        by (auto simp: lines_ok_Cons line_ok_def)
    qed
  qed
qed

lemma lines_ok_filter: "lines_ok ls \<Longrightarrow> lines_ok (filter P ls)"
proof (induction ls)
  case Nil
  then show ?case by simp
next
  case (Cons l ls)
  then have ok: "line_ok l" "lines_ok ls" and nl: "ls \<noteq> [] \<Longrightarrow> last l = CHR 0x0A"
    by (simp_all add: lines_ok_Cons)
  have "filter P ls \<noteq> [] \<Longrightarrow> ls \<noteq> []" by auto
  with Cons.IH ok nl show ?case by (auto simp: lines_ok_Cons)
qed

lemma readlines_single: "line_ok l \<Longrightarrow> readlines l = [l]"
proof (induction l)
  case Nil
  then show ?case by (simp add: line_ok_def)
next
  case (Cons c cs)
  show ?case
  proof (cases cs)
    case Nil
    then show ?thesis by simp
  next
    case (Cons d ds)
    with Cons.prems have "c \<noteq> CHR 0x0A" "line_ok cs" by (auto simp: line_ok_def)
    with Cons.IH show ?thesis by simp
  qed
qed

lemma readlines_append:
  "line_ok l \<Longrightarrow> last l = CHR 0x0A \<Longrightarrow> readlines (l @ rest) = l # readlines rest"
proof (induction l)
  case Nil
  then show ?case by (simp add: line_ok_def)
next
  case (Cons c cs)
  show ?case
  proof (cases cs)
    case Nil
    with Cons.prems show ?thesis by simp
  next
    case (Cons d ds)
    with Cons.prems have "c \<noteq> CHR 0x0A" "line_ok cs" "last cs = CHR 0x0A"
      by (auto simp: line_ok_def)
    with Cons.IH show ?thesis by simp
  qed
qed

lemma readlines_concat: "lines_ok ls \<Longrightarrow> readlines (concat ls) = ls"
proof (induction ls)
  case Nil
  then show ?case by simp
next
  case (Cons l ls)
  then have ok: "line_ok l" "lines_ok ls" and nl: "ls \<noteq> [] \<Longrightarrow> last l = CHR 0x0A"
    by (simp_all add: lines_ok_Cons)
  show ?case
  proof (cases "ls = []")
    case True
    with ok show ?thesis by (simp add: readlines_single)
  next
    case False
    with ok nl Cons.IH show ?thesis by (simp add: readlines_append)
  qed
qed

lemma correctness_of_total:
  "correctness_of line =
     Inr (py_strip (py_rstrip (last (py_split (CHR '':'') (py_replace_del (CHR '','') line)))))"
  by (simp add: correctness_of_def py_last_split)

lemma is_correct_not_kept: "py_in ''is_correct'' l \<Longrightarrow> \<not> no_groundtruth l"
  by (simp add: no_groundtruth_def)

lemma rwg_loop_result:
  "rwg_loop ls (out, cor) =
     Inr (out @ concat (filter no_groundtruth ls),
          (case filter (py_in ''is_correct'') ls of
             [] \<Rightarrow> cor
           | _ # _ \<Rightarrow> (case correctness_of (last (filter (py_in ''is_correct'') ls)) of
                         Inl e \<Rightarrow> None | Inr c \<Rightarrow> Some c)))"
proof (induction ls arbitrary: out cor)
  case Nil
  show ?case by simp
next
  case (Cons l ls)
  show ?case
    by (cases "filter (py_in ''is_correct'') ls")
       (auto simp: Cons.IH correctness_of_total no_groundtruth_def)
qed

lemma sublist_concat_lines:
  assumes "lines_ok ls" "sub \<noteq> []" "CHR 0x0A \<notin> set sub" "sublist sub (concat ls)"
  shows "\<exists>l \<in> set ls. sublist sub l"
  using assms(1,4)
proof (induction ls)
  case Nil
  with assms(2) show ?case by simp
next
  case (Cons l ls)
  then have ok: "line_ok l" "lines_ok ls" and nl: "ls \<noteq> [] \<Longrightarrow> last l = CHR 0x0A"
    by (simp_all add: lines_ok_Cons)
  from Cons.prems(2) have "sublist sub (l @ concat ls)" by simp
  then consider "sublist sub l" | "sublist sub (concat ls)"
    | xs1 xs2 where "sub = xs1 @ xs2" "suffix xs1 l" "prefix xs2 (concat ls)"
    by (auto simp: sublist_append)
  then show ?case
  proof cases
    case 1
    then show ?thesis by auto
  next
    case 2
    with Cons.IH ok show ?thesis by auto
  next
    case 3
    show ?thesis
    proof (cases "xs1 = [] \<or> xs2 = []")
      case True
      then show ?thesis
      proof
        assume "xs1 = []"
        with 3 have "sublist sub (concat ls)" by (auto intro: prefix_imp_sublist)
        with Cons.IH ok show ?thesis by auto
      next
        assume "xs2 = []"
        with 3 have "sublist sub l" by (auto intro: suffix_imp_sublist)
        then show ?thesis by auto
      qed
    next
      case False
      then have ne: "xs1 \<noteq> []" "xs2 \<noteq> []" by auto
      have "ls \<noteq> []"
      proof
        assume "ls = []"
        with 3 ne show False by simp
      qed
      with nl have "last l = CHR 0x0A" by simp
      moreover from 3 ne have "last xs1 = last l" by (auto simp: suffix_def)
      ultimately have "CHR 0x0A \<in> set xs1" using ne(1) last_in_set by metis
      with 3 assms(3) show ?thesis by auto
    qed
  qed
qed


text \<open>
  C8. When \<open>read_without_groundtruth\<close> returns, no line of the returned text holds
  \<^verbatim>\<open>is_correct\<close>, \<^verbatim>\<open>correct_ans\<close> or \<^verbatim>\<open>check_result\<close>, and neither does the
  text as a whole; and a second log that has the same lines once the lines holding a
  marker are taken out of both yields the same text.
\<close>

theorem rwg_hides_groundtruth:
  assumes "read_without_groundtruth content = Inr (text, label)"
  shows "(\<forall>l \<in> set (readlines text). no_groundtruth l) \<and>
         \<not> py_in ''is_correct'' text \<and> \<not> py_in ''correct_ans'' text \<and>
         \<not> py_in ''check_result'' text \<and>
         (\<forall>content' text' label'.
            read_without_groundtruth content' = Inr (text', label') \<and>
            filter no_groundtruth (readlines content') = filter no_groundtruth (readlines content)
            \<longrightarrow> text' = text)"
proof -
  have t_eq: "text = concat (filter no_groundtruth (readlines content))"
    using assms
    by (auto simp: read_without_groundtruth_def rwg_loop_result split: option.splits list.splits sum.splits)
  have ok: "lines_ok (filter no_groundtruth (readlines content))"
    by (simp add: lines_ok_filter readlines_lines_ok)
  have lines: "readlines text = filter no_groundtruth (readlines content)"
    using ok by (simp add: t_eq readlines_concat)
  have none: "\<not> sublist sub text" if "sub \<noteq> []" "CHR 0x0A \<notin> set sub"
      "\<forall>l. no_groundtruth l \<longrightarrow> \<not> sublist sub l" for sub
  proof
    assume "sublist sub text"
    with sublist_concat_lines [OF ok that(1,2)] t_eq
    obtain l where "l \<in> set (filter no_groundtruth (readlines content))" "sublist sub l" by auto
    with that(3) show False by auto
  qed
  have other: "text' = text"
    if "read_without_groundtruth content' = Inr (text', label')"
      "filter no_groundtruth (readlines content') = filter no_groundtruth (readlines content)"
    for content' text' label'
  proof -
    have "text' = concat (filter no_groundtruth (readlines content'))"
      using that(1)
      by (auto simp: read_without_groundtruth_def rwg_loop_result split: option.splits list.splits sum.splits)
    with that(2) t_eq show ?thesis by simp
  qed
  show ?thesis
    using lines none [of "''is_correct''"] none [of "''correct_ans''"] none [of "''check_result''"] other
    by (auto simp: no_groundtruth_def py_in_def)
qed


text \<open>
  The theorem at a log with one \<^verbatim>\<open>is_correct\<close> line, and at a second log that differs
  from it in the lines holding a marker only.
\<close>

theorem rwg_hides_groundtruth_witness:
  "read_without_groundtruth ''Q: 1+1\<newline>is_correct: true,\<newline>A: 2\<newline>'' = Inr (''Q: 1+1\<newline>A: 2\<newline>'', ''true'') \<and>
   read_without_groundtruth ''Q: 1+1\<newline>correct_ans: 2\<newline>is_correct: false,\<newline>A: 2\<newline>'' = Inr (''Q: 1+1\<newline>A: 2\<newline>'', ''false'') \<and>
   readlines ''Q: 1+1\<newline>A: 2\<newline>'' = [''Q: 1+1\<newline>'', ''A: 2\<newline>''] \<and>
   no_groundtruth ''Q: 1+1\<newline>'' \<and> no_groundtruth ''A: 2\<newline>'' \<and>
   \<not> py_in ''is_correct'' ''Q: 1+1\<newline>A: 2\<newline>''"
proof -
  have r: "read_without_groundtruth ''Q: 1+1\<newline>is_correct: true,\<newline>A: 2\<newline>'' = Inr (''Q: 1+1\<newline>A: 2\<newline>'', ''true'')"
    by code_simp
  have r': "read_without_groundtruth ''Q: 1+1\<newline>correct_ans: 2\<newline>is_correct: false,\<newline>A: 2\<newline>'' = Inr (''Q: 1+1\<newline>A: 2\<newline>'', ''false'')"
    by code_simp
  have l: "readlines ''Q: 1+1\<newline>A: 2\<newline>'' = [''Q: 1+1\<newline>'', ''A: 2\<newline>'']"
    by code_simp
  from rwg_hides_groundtruth [OF r] r r' l show ?thesis by simp
qed


text \<open>
  C9. A file with a line holding \<^verbatim>\<open>is_correct\<close> yields the pair of the text without
  the marked lines and the label of the last such line: with the commas of that line
  deleted, the label is what follows its last colon (the whole line when it has none),
  without the white space at both ends. A file with no such line yields
  \<^verbatim>\<open>UnboundLocalError\<close>.
\<close>

theorem rwg_returns_iff_is_correct:
  "(if \<exists>l \<in> set (readlines content). py_in ''is_correct'' l
    then \<exists>label before piece left right.
      (filter (\<lambda>c. c \<noteq> CHR '','') (last (filter (py_in ''is_correct'') (readlines content))) =
         before @ CHR '':'' # piece \<or>
       filter (\<lambda>c. c \<noteq> CHR '','') (last (filter (py_in ''is_correct'') (readlines content))) = piece) \<and>
      CHR '':'' \<notin> set piece \<and>
      piece = left @ label @ right \<and>
      set left \<union> set right \<subseteq>
        {CHR 0x09, CHR 0x0A, CHR 0x0B, CHR 0x0C, CHR 0x0D, CHR 0x1C, CHR 0x1D, CHR 0x1E, CHR 0x1F,
         CHR 0x20, CHR 0x85, CHR 0xA0} \<and>
      (label = [] \<or>
       {hd label, last label} \<inter>
         {CHR 0x09, CHR 0x0A, CHR 0x0B, CHR 0x0C, CHR 0x0D, CHR 0x1C, CHR 0x1D, CHR 0x1E, CHR 0x1F,
          CHR 0x20, CHR 0x85, CHR 0xA0} = {}) \<and>
      read_without_groundtruth content =
        Inr (concat (filter no_groundtruth (readlines content)), label)
    else read_without_groundtruth content = Inl UnboundLocalError)"
proof (cases "filter (py_in ''is_correct'') (readlines content)")
  case Nil
  then have "\<not> (\<exists>l \<in> set (readlines content). py_in ''is_correct'' l)"
    by (simp add: filter_empty_conv)
  with Nil show ?thesis
    by (simp add: read_without_groundtruth_def rwg_loop_result)
next
  case (Cons x xs)
  let ?ws = "{CHR 0x09, CHR 0x0A, CHR 0x0B, CHR 0x0C, CHR 0x0D, CHR 0x1C, CHR 0x1D, CHR 0x1E, CHR 0x1F,
         CHR 0x20, CHR 0x85, CHR 0xA0}"
  let ?line = "last (filter (py_in ''is_correct'') (readlines content))"
  let ?nocomma = "filter (\<lambda>c. c \<noteq> CHR '','') ?line"
  let ?piece = "last (py_split (CHR '':'') ?nocomma)"
  let ?label = "py_strip (py_rstrip ?piece)"
  from Cons have some: "\<exists>l \<in> set (readlines content). py_in ''is_correct'' l"
    by (metis filter_empty_conv list.distinct(1))
  have ret: "read_without_groundtruth content =
      Inr (concat (filter no_groundtruth (readlines content)), ?label)"
    using Cons
    by (simp add: read_without_groundtruth_def rwg_loop_result correctness_of_total py_replace_del_def)
  from last_py_split [of "CHR '':''" ?nocomma]
  obtain before where c1: "?nocomma = before @ CHR '':'' # ?piece \<or> ?nocomma = ?piece"
    and c2: "CHR '':'' \<notin> set ?piece"
    by auto
  from strip_decomposition [of ?piece]
  obtain left right where c3: "?piece = left @ ?label @ right"
    and l: "\<forall>c \<in> set left. py_isspace c" and r: "\<forall>c \<in> set right. py_isspace c"
    and ends: "?label = [] \<or> (\<not> py_isspace (hd ?label) \<and> \<not> py_isspace (last ?label))"
    by blast
  define ws where "ws = ?ws"
  have ws: "py_isspace c \<longleftrightarrow> c \<in> ws" for c
    unfolding ws_def by (rule py_isspace_set)
  from l r have c4: "set left \<union> set right \<subseteq> ws"
    by (auto simp: ws)
  from ends have c5: "?label = [] \<or> {hd ?label, last ?label} \<inter> ws = {}"
    by (auto simp: ws)
  have "\<exists>label before piece left right.
      (?nocomma = before @ CHR '':'' # piece \<or> ?nocomma = piece) \<and>
      CHR '':'' \<notin> set piece \<and> piece = left @ label @ right \<and>
      set left \<union> set right \<subseteq> ws \<and>
      (label = [] \<or> {hd label, last label} \<inter> ws = {}) \<and>
      read_without_groundtruth content =
        Inr (concat (filter no_groundtruth (readlines content)), label)"
    by (intro exI conjI) (rule c1, rule c2, rule c3, rule c4, rule c5, rule ret)
  then show ?thesis
    unfolding ws_def using some by (simp only: if_True)
qed


text \<open>
  The theorem at a log with two \<^verbatim>\<open>is_correct\<close> lines, the last one labelled
  \<^verbatim>\<open>true\<close>, and at a log with none.
\<close>

theorem rwg_returns_iff_is_correct_witness:
  \<open>read_without_groundtruth
      ''Q: 1+1\<newline>is_correct: false,\<newline>A: 2\<newline>  "is_correct" : true , \<newline>'' =
      Inr (''Q: 1+1\<newline>A: 2\<newline>'', ''true'') \<and>
   read_without_groundtruth ''Q: 1+1\<newline>A: 2\<newline>'' = Inl UnboundLocalError\<close>
proof -
  have a: \<open>read_without_groundtruth
      ''Q: 1+1\<newline>is_correct: false,\<newline>A: 2\<newline>  "is_correct" : true , \<newline>'' =
      Inr (''Q: 1+1\<newline>A: 2\<newline>'', ''true'')\<close>
    by code_simp
  have b: "read_without_groundtruth ''Q: 1+1\<newline>A: 2\<newline>'' = Inl UnboundLocalError"
    by code_simp
  from rwg_returns_iff_is_correct [of \<open>''Q: 1+1\<newline>is_correct: false,\<newline>A: 2\<newline>  "is_correct" : true , \<newline>''\<close>]
    rwg_returns_iff_is_correct [of "''Q: 1+1\<newline>A: 2\<newline>''"] a b
  show ?thesis by (simp only: simp_thms)
qed

section \<open>Properties of the batch loop\<close>

lemma files_loop_items:
  "files_loop cf q lp p fs st =
     items_run cf q (map (\<lambda>f. (p @ ''_'' @ f, lp @ ''/'' @ p @ ''/'' @ f))
        (filter (\<lambda>f. last (py_split (CHR ''.'') f) = ''json'') fs)) st"
proof (induction fs arbitrary: st)
  case Nil
  show ?case by simp
next
  case (Cons f fs)
  obtain oc called where st: "st = (oc, called)" by (cases st)
  show ?case
    by (simp add: st py_last_split Cons.IH split: sum.splits)
qed

lemma items_run_append:
  "items_run cf q (xs @ ys) st =
     (case items_run cf q xs st of
        (st', Some e) \<Rightarrow> (st', Some e)
      | (st', None) \<Rightarrow> items_run cf q ys st')"
proof (induction xs arbitrary: st)
  case Nil
  show ?case by simp
next
  case (Cons x xs)
  obtain g path where x: "x = (g, path)" by (cases x)
  obtain oc called where st: "st = (oc, called)" by (cases st)
  show ?case
    by (simp add: x st Cons.IH split: sum.splits)
qed

lemma prefixes_loop_items:
  "prefixes_loop cf q lp dirs st = items_run cf q (batch_items lp dirs) st"
proof (induction dirs arbitrary: st)
  case Nil
  show ?case by (simp add: batch_items_def)
next
  case (Cons d dirs)
  obtain p fs where d: "d = (p, fs)" by (cases d)
  have "batch_items lp (d # dirs) =
          map (\<lambda>f. (p @ ''_'' @ f, lp @ ''/'' @ p @ ''/'' @ f))
            (filter (\<lambda>f. last (py_split (CHR ''.'') f) = ''json'') fs) @ batch_items lp dirs"
    by (simp add: batch_items_def d)
  then show ?case
    by (simp add: d files_loop_items items_run_append Cons.IH split: prod.splits option.splits)
qed

lemma items_run_outcome: "fst (fst (items_run cf q items (oc, called))) = oc"
proof (induction items arbitrary: called)
  case Nil
  show ?case by simp
next
  case (Cons x xs)
  obtain g path where x: "x = (g, path)" by (cases x)
  show ?case by (simp add: x Cons.IH split: sum.splits)
qed

lemma items_run_all_succeed:
  "\<forall>(g, path) \<in> set pre. \<exists>t r. cf path = Inr t \<and> q t = Inr r \<Longrightarrow>
   items_run cf q pre (oc, called) = ((oc, called @ map fst pre), None)"
proof (induction pre arbitrary: called)
  case Nil
  show ?case by simp
next
  case (Cons x xs)
  obtain g path where x: "x = (g, path)" by (cases x)
  from Cons.prems x obtain t r where "cf path = Inr t" "q t = Inr r" by auto
  moreover from Cons.prems have "\<forall>(g, path) \<in> set xs. \<exists>t r. cf path = Inr t \<and> q t = Inr r" by simp
  ultimately show ?case by (simp add: x Cons.IH)
qed


text \<open>
  C6. The claim asks for one entry per quantified test case in the batch output. The
  loops never store into \<^verbatim>\<open>outcome\<close>: whenever the cell reaches \<^verbatim>\<open>json.dump\<close>, the
  dictionary it writes is empty.
\<close>

theorem run_batch_outcome_empty:
  "snd (run_batch create_from_file quantify log_path log_dirs) = Inr outcome \<Longrightarrow> outcome = []"
proof -
  assume a: "snd (run_batch create_from_file quantify log_path log_dirs) = Inr outcome"
  obtain oc called err where
    r: "items_run create_from_file quantify (batch_items log_path log_dirs) ([], []) = ((oc, called), err)"
    by (metis surj_pair)
  from items_run_outcome [of create_from_file quantify "batch_items log_path log_dirs" "[]" "[]"] r
  have "oc = []" by simp
  with a r show ?thesis
    by (auto simp: run_batch_def prefixes_loop_items split: option.splits)
qed


text \<open>
  The theorem at a batch of one log that is quantified without an exception: the call
  is made, the dictionary written holds no entry for it.
\<close>

theorem run_batch_outcome_empty_witness:
  "run_batch (\<lambda>path. Inr path) (\<lambda>test_case. Inr (PStr ''{\"accuracy\": \"correct\"}'', PStr ''true''))
     ''logs'' [(''prealgebra'', [''0.json''])] =
   ([''prealgebra_0.json''], (Inr [] :: py_error + (string \<times> (pyval \<times> pyval)) list))"
proof -
  have "snd (run_batch (\<lambda>path. Inr path) (\<lambda>test_case. Inr (PStr ''{\"accuracy\": \"correct\"}'', PStr ''true''))
     ''logs'' [(''prealgebra'', [''0.json''])]) = (Inr [] :: py_error + (string \<times> (pyval \<times> pyval)) list)"
    by code_simp
  from run_batch_outcome_empty [OF this] show ?thesis by code_simp
qed


text \<open>
  C7, as claimed, fails: with two logs in the batch and \<^verbatim>\<open>quantify_criteria\<close> raising on
  the first, the second is never reached.
\<close>

theorem batch_continues_counterexample:
  "(\<lambda>t. if t = ''logs/prealgebra/0.json'' then Inl (PyException ''no valid mapping'') else Inr (PStr t))
     ''logs/prealgebra/0.json'' = Inl (PyException ''no valid mapping'') \<and>
   (''prealgebra_1.json'', ''logs/prealgebra/1.json'') \<in> set (batch_items ''logs'' [(''prealgebra'', [''0.json'', ''1.json''])]) \<and>
   ''prealgebra_1.json'' \<notin> set (fst (run_batch (\<lambda>path. Inr path)
      (\<lambda>t. if t = ''logs/prealgebra/0.json'' then Inl (PyException ''no valid mapping'') else Inr (PStr t))
      ''logs'' [(''prealgebra'', [''0.json'', ''1.json''])]))"
  by code_simp


text \<open>
  C7, amended. When every test case before an item is created and quantified without
  an exception and \<^verbatim>\<open>quantify_criteria\<close> raises on that item, the cell ends with that
  exception: the calls made are those up to and including the item, no later test case
  is processed and nothing is written.
\<close>

theorem run_batch_aborts_at_failure:
  assumes "batch_items log_path log_dirs = pre @ (gameid, path) # post"
    and "\<forall>(g, p) \<in> set pre. \<exists>t r. create_from_file p = Inr t \<and> quantify t = Inr r"
    and "create_from_file path = Inr test_case"
    and "quantify test_case = Inl e"
  shows "run_batch create_from_file quantify log_path log_dirs = (map fst pre @ [gameid], Inl e)"
  using assms(3,4)
  by (simp add: run_batch_def prefixes_loop_items assms(1) items_run_append
      items_run_all_succeed [OF assms(2)])

text \<open>The theorem at a batch of three logs with the exception on the second.\<close>

theorem run_batch_aborts_at_failure_witness:
  "run_batch (\<lambda>path. Inr path)
      (\<lambda>t. if t = ''logs/prealgebra/1.json'' then Inl (PyException ''no valid mapping'') else Inr (PStr t))
      ''logs'' [(''prealgebra'', [''0.json'', ''1.json'', ''2.json''])] =
   ([''prealgebra_0.json'', ''prealgebra_1.json''], Inl (PyException ''no valid mapping''))"
proof -
  let ?q = "\<lambda>t. if t = ''logs/prealgebra/1.json'' then Inl (PyException ''no valid mapping'') else Inr (PStr t)"
  note inst = run_batch_aborts_at_failure
    [where create_from_file = "\<lambda>path. Inr path" and quantify = ?q and log_path = "''logs''"
       and log_dirs = "[(''prealgebra'', [''0.json'', ''1.json'', ''2.json''])]"
       and pre = "[(''prealgebra_0.json'', ''logs/prealgebra/0.json'')]"
       and gameid = "''prealgebra_1.json''" and path = "''logs/prealgebra/1.json''"
       and post = "[(''prealgebra_2.json'', ''logs/prealgebra/2.json'')]"
       and test_case = "''logs/prealgebra/1.json''" and e = "PyException ''no valid mapping''"]
  have items: "batch_items ''logs'' [(''prealgebra'', [''0.json'', ''1.json'', ''2.json''])] =
      [(''prealgebra_0.json'', ''logs/prealgebra/0.json'')] @
      (''prealgebra_1.json'', ''logs/prealgebra/1.json'') # [(''prealgebra_2.json'', ''logs/prealgebra/2.json'')]"
    by code_simp
  show ?thesis using inst items by simp
qed

section \<open>Properties of the aggregation\<close>

subsection \<open>The table of a document of the documented shape\<close>

lemma values_loop_strings:
  "\<exists>m'. values_loop (map PStr vs) k m = Inr m' \<and>
     (\<lambda>v. m' (PStr v)) = label_scores vs k (\<lambda>v. m (PStr v)) \<and>
     (\<forall>x. (\<forall>v. x \<noteq> PStr v) \<longrightarrow> m' x = m x)"
proof (induction vs arbitrary: k m)
  case Nil
  show ?case by simp
next
  case (Cons v vs)
  have upd: "(\<lambda>x. (m(PStr v \<mapsto> k)) (PStr x)) = (\<lambda>x. m (PStr x))(v \<mapsto> k)"
    by (auto simp: fun_eq_iff)
  from Cons.IH [of "k + 1" "m(PStr v \<mapsto> k)"]
  obtain m' where 1: "values_loop (map PStr vs) (k + 1) (m(PStr v \<mapsto> k)) = Inr m'"
    and 2: "(\<lambda>x. m' (PStr x)) = label_scores vs (k + 1) (\<lambda>x. (m(PStr v \<mapsto> k)) (PStr x))"
    and 3: "\<forall>x. (\<forall>v. x \<noteq> PStr v) \<longrightarrow> m' x = (m(PStr v \<mapsto> k)) x" by blast
  have "values_loop (map PStr (v # vs)) k m = Inr m'"
    using 1 by (simp add: py_hashable_def py_key_def)
  moreover have "(\<lambda>x. m' (PStr x)) = label_scores (v # vs) k (\<lambda>x. m (PStr x))"
    unfolding 2 upd by simp
  moreover have "\<forall>x. (\<forall>v. x \<noteq> PStr v) \<longrightarrow> m' x = m x"
    using 3 by auto
  ultimately show ?case by blast
qed

lemma store_value_lookup:
  "map_of (map ((\<lambda>(k, v). (py_key k, v)) \<circ> (\<lambda>(name, c). (PStr name, f c))) store) (py_key (PStr name)) =
     map_option f (map_of store name)"
  by (induction store) (auto simp: py_key_def)

lemma py_getitem_store_value:
  "map_of store name = Some c \<Longrightarrow>
   py_getitem (store_value store) (PStr name) =
     Inr (PDict [(PStr ''description'', PStr (description c)),
                 (PStr ''accepted_values'', PList (map PStr (accepted_values c)))])"
  by (simp add: py_getitem_def store_value_def py_hashable_def store_value_lookup)

lemma build_nl2int_store:
  assumes "\<forall>(name, c) \<in> set rest. map_of store name = Some c"
  shows "\<exists>m'. build_nl2int (store_value store) (map (\<lambda>(name, c). PStr name) rest) m = Inr m' \<and>
     (\<lambda>v. m' (PStr v)) = label_table rest (\<lambda>v. m (PStr v)) \<and>
     (\<forall>x. (\<forall>v. x \<noteq> PStr v) \<longrightarrow> m' x = m x)"
  using assms
proof (induction rest arbitrary: m)
  case Nil
  show ?case by simp
next
  case (Cons e rest)
  obtain name c where e: "e = (name, c)" by (cases e)
  from Cons.prems e have look: "map_of store name = Some c"
    and rest: "\<forall>(name, c) \<in> set rest. map_of store name = Some c" by auto
  from values_loop_strings [of "accepted_values c" 0 m]
  obtain m1 where v: "values_loop (map PStr (accepted_values c)) 0 m = Inr m1"
    and t: "(\<lambda>v. m1 (PStr v)) = label_scores (accepted_values c) 0 (\<lambda>v. m (PStr v))"
    and o: "\<forall>x. (\<forall>v. x \<noteq> PStr v) \<longrightarrow> m1 x = m x" by blast
  from Cons.IH [OF rest, of m1]
  obtain m' where b: "build_nl2int (store_value store) (map (\<lambda>(name, c). PStr name) rest) m1 = Inr m'"
    and t': "(\<lambda>v. m' (PStr v)) = label_table rest (\<lambda>v. m1 (PStr v))"
    and o': "\<forall>x. (\<forall>v. x \<noteq> PStr v) \<longrightarrow> m' x = m1 x" by blast
  have acc: "py_getitem (PDict [(PStr ''description'', PStr (description c)),
                 (PStr ''accepted_values'', PList (map PStr (accepted_values c)))]) (PStr ''accepted_values'') =
        Inr (PList (map PStr (accepted_values c)))"
    by (simp add: py_getitem_def py_hashable_def py_key_def)
  have "build_nl2int (store_value store) (map (\<lambda>(name, c). PStr name) (e # rest)) m = Inr m'"
    by (simp add: e py_getitem_store_value [OF look] acc py_iter_def v b)
  moreover have "(\<lambda>v. m' (PStr v)) = label_table (e # rest) (\<lambda>v. m (PStr v))"
    by (simp add: e t' t)
  moreover have "\<forall>x. (\<forall>v. x \<noteq> PStr v) \<longrightarrow> m' x = m x"
    using o o' by simp
  ultimately show ?case by blast
qed

lemma map_of_distinct_entries:
  "distinct (map fst xs) \<Longrightarrow> \<forall>(k, v) \<in> set xs. map_of xs k = Some v"
  by auto

lemma label_scores_other: "v \<notin> set vs \<Longrightarrow> label_scores vs k m v = m v"
  by (induction vs arbitrary: k m) auto

lemma label_scores_index:
  "distinct vs \<Longrightarrow> i < length vs \<Longrightarrow> label_scores vs k m (vs ! i) = Some (k + i)"
proof (induction vs arbitrary: k m i)
  case Nil
  then show ?case by simp
next
  case (Cons v vs)
  show ?case
  proof (cases i)
    case 0
    from Cons.prems(1) have "v \<notin> set vs" by simp
    from label_scores_other [OF this] 0 show ?thesis by simp
  next
    case (Suc j)
    with Cons.prems have "distinct vs" "j < length vs" by auto
    from Cons.IH [OF this] Suc show ?thesis by simp
  qed
qed

lemma label_table_other:
  "\<forall>(name, c) \<in> set d. v \<notin> set (accepted_values c) \<Longrightarrow> label_table d m v = m v"
proof (induction d arbitrary: m)
  case Nil
  show ?case by simp
next
  case (Cons x xs)
  obtain name c where x: "x = (name, c)" by (cases x)
  from Cons.prems x have "v \<notin> set (accepted_values c)"
    and "\<forall>(name, c) \<in> set xs. v \<notin> set (accepted_values c)" by auto
  with Cons.IH show ?case by (simp add: x label_scores_other)
qed

text \<open>
  When no label is shared between criteria, the table gives every label its position in
  the accepted values of its criterion.
\<close>

lemma label_table_index:
  assumes "distinct (concat (map (\<lambda>(name, c). accepted_values c) d))"
    and "(name, c) \<in> set d" and "i < length (accepted_values c)"
  shows "label_table d m (accepted_values c ! i) = Some i"
  using assms
proof (induction d arbitrary: m)
  case Nil
  then show ?case by simp
next
  case (Cons x xs)
  obtain name' c' where x: "x = (name', c')" by (cases x)
  from Cons.prems(1) x have d1: "distinct (accepted_values c')"
    and d2: "distinct (concat (map (\<lambda>(name, c). accepted_values c) xs))"
    and d3: "set (accepted_values c') \<inter> set (concat (map (\<lambda>(name, c). accepted_values c) xs)) = {}"
    by auto
  show ?case
  proof (cases "(name, c) \<in> set xs")
    case True
    from Cons.IH [OF d2 True Cons.prems(3)] show ?thesis by (simp add: x)
  next
    case False
    with Cons.prems(2) x have c: "c' = c" by auto
    have "\<forall>(n, c'') \<in> set xs. accepted_values c ! i \<notin> set (accepted_values c'')"
    proof (clarify)
      fix n c''
      assume "(n, c'') \<in> set xs" "accepted_values c ! i \<in> set (accepted_values c'')"
      then have "accepted_values c ! i \<in> set (concat (map (\<lambda>(name, c). accepted_values c) xs))"
        by force
      moreover have "accepted_values c ! i \<in> set (accepted_values c')"
        using Cons.prems(3) c by simp
      ultimately show False using d3 by blast
    qed
    from label_table_other [OF this] label_scores_index [OF d1 [unfolded c] Cons.prems(3)]
    show ?thesis by (simp add: x c)
  qed
qed

subsection \<open>One game\<close>






subsection \<open>The cell on texts that evaluate purely\<close>

lemma nl2int_get_string_keyed:
  "string_keyed nl \<Longrightarrow>
   nl2int_get nl x = (case x of PStr v \<Rightarrow> (case nl (PStr v) of None \<Rightarrow> Inl KeyError | Some n \<Rightarrow> Inr n)
                      | PList _ \<Rightarrow> Inl TypeError | PDict _ \<Rightarrow> Inl TypeError | _ \<Rightarrow> Inl KeyError)"
  by (cases x) (auto simp: nl2int_get_def py_hashable_def py_key_def string_keyed_def split: option.splits)

lemma py_getitem_string_key:
  "py_getitem obj (PStr c) =
     (case obj of
        PDict d \<Rightarrow> (case map_of (map (\<lambda>(k, v). (py_key k, v)) d) (PStr c) of
                     None \<Rightarrow> Inl KeyError | Some v \<Rightarrow> Inr v)
      | _ \<Rightarrow> Inl TypeError)"
  by (cases obj) (simp_all add: py_getitem_def py_hashable_def py_key_def)

lemma game_step_pure:
  assumes oc: "map_of (ns_outcome ns) g = Some r"
    and pure: "\<forall>s. map_of r ''estimated_performance'' = Some (PStr s) \<longrightarrow> evaluates_purely ev s (rv s)"
    and crit: "ns_criterion ns = PStr c"
    and keyed: "string_keyed (ns_nl2int ns)"
  shows "\<exists>t. game_step ev (ns\<lparr>ns_game := g\<rparr>) =
     ns\<lparr>ns_game := g, ns_tmp_dic := t,
        ns_task := step_task rv (\<lambda>v. ns_nl2int ns (PStr v)) c r (ns_task ns)\<rparr>"
proof (cases "map_of r ''estimated_performance''")
  case None
  then have "game_step ev (ns\<lparr>ns_game := g\<rparr>) = ns\<lparr>ns_game := g\<rparr>"
    using oc by (simp add: game_step_def try_game_def dict_get_def)
  moreover have "step_task rv (\<lambda>v. ns_nl2int ns (PStr v)) c r (ns_task ns) = ns_task ns"
    using None by (simp add: step_task_def record_score_def assigned_label_def split: option.splits)
  ultimately have "game_step ev (ns\<lparr>ns_game := g\<rparr>) =
     ns\<lparr>ns_game := g, ns_tmp_dic := ns_tmp_dic ns,
        ns_task := step_task rv (\<lambda>v. ns_nl2int ns (PStr v)) c r (ns_task ns)\<rparr>"
    by simp
  then show ?thesis ..
next
  case (Some est)
  show ?thesis
  proof (cases "\<exists>s. est = PStr s")
    case False
    then have "py_eval ev est (ns\<lparr>ns_game := g\<rparr>) = (Inl TypeError, ns\<lparr>ns_game := g\<rparr>)"
      by (cases est) (simp_all add: py_eval_def)
    then have "game_step ev (ns\<lparr>ns_game := g\<rparr>) = ns\<lparr>ns_game := g\<rparr>"
      using oc Some by (simp add: game_step_def try_game_def dict_get_def)
    moreover have "step_task rv (\<lambda>v. ns_nl2int ns (PStr v)) c r (ns_task ns) = ns_task ns"
      using Some False
      by (cases est) (simp_all add: step_task_def record_score_def assigned_label_def split: option.splits)
    ultimately have "game_step ev (ns\<lparr>ns_game := g\<rparr>) =
       ns\<lparr>ns_game := g, ns_tmp_dic := ns_tmp_dic ns,
          ns_task := step_task rv (\<lambda>v. ns_nl2int ns (PStr v)) c r (ns_task ns)\<rparr>"
      by simp
    then show ?thesis ..
  next
    case True
    then obtain s where est: "est = PStr s" ..
    with Some pure have "ev s (ns\<lparr>ns_game := g\<rparr>) = (rv s, ns\<lparr>ns_game := g\<rparr>)"
      by (simp add: evaluates_purely_def)
    have tg: "try_game ev (ns\<lparr>ns_game := g\<rparr>) =
       (case rv s of
          Inl e \<Rightarrow> (Some e, ns\<lparr>ns_game := g\<rparr>)
        | Inr tmp_dic \<Rightarrow>
            (case map_of r ''actual_success'' of
               None \<Rightarrow> (Some KeyError, ns\<lparr>ns_game := g, ns_tmp_dic := tmp_dic\<rparr>)
             | Some actual \<Rightarrow>
                 (case py_getitem tmp_dic (PStr c) of
                    Inl e \<Rightarrow> (Some e, ns\<lparr>ns_game := g, ns_tmp_dic := tmp_dic\<rparr>)
                  | Inr assigned \<Rightarrow>
                      (case nl2int_get (ns_nl2int ns) assigned of
                         Inl e \<Rightarrow> (Some e, ns\<lparr>ns_game := g, ns_tmp_dic := tmp_dic\<rparr>)
                       | Inr n \<Rightarrow>
                           (None,
                            if actual = PStr ''false''
                            then ns\<lparr>ns_game := g, ns_tmp_dic := tmp_dic,
                                    ns_task := (fst (ns_task ns), snd (ns_task ns) @ [n])\<rparr>
                            else ns\<lparr>ns_game := g, ns_tmp_dic := tmp_dic,
                                    ns_task := (fst (ns_task ns) @ [n], snd (ns_task ns))\<rparr>)))))"
      using oc Some est \<open>ev s (ns\<lparr>ns_game := g\<rparr>) = (rv s, ns\<lparr>ns_game := g\<rparr>)\<close> crit
      by (simp add: try_game_def dict_get_def py_eval_def Let_def split: sum.splits option.splits)
    show ?thesis
    proof (cases "rv s")
      case (Inl e)
      then have "game_step ev (ns\<lparr>ns_game := g\<rparr>) =
         ns\<lparr>ns_game := g, ns_tmp_dic := ns_tmp_dic ns,
            ns_task := step_task rv (\<lambda>v. ns_nl2int ns (PStr v)) c r (ns_task ns)\<rparr>"
        using Some est
        by (simp add: game_step_def tg step_task_def record_score_def assigned_label_def
            split: option.splits)
      then show ?thesis ..
    next
      case (Inr tmp)
      have "game_step ev (ns\<lparr>ns_game := g\<rparr>) =
         ns\<lparr>ns_game := g, ns_tmp_dic := tmp,
            ns_task := step_task rv (\<lambda>v. ns_nl2int ns (PStr v)) c r (ns_task ns)\<rparr>"
        using Some est Inr
        by (cases tmp)
           (auto simp: game_step_def tg step_task_def record_score_def assigned_label_def
              py_getitem_string_key nl2int_get_string_keyed [OF keyed]
              split: option.splits pyval.splits)
      then show ?thesis ..
    qed
  qed
qed

lemma partition_scores_Cons:
  "partition_scores b rv table c ((g, r) # es) =
     (if (map_of r ''actual_success'' = Some (PStr ''false'')) = b
      then (case record_score rv table c r of None \<Rightarrow> [] | Some n \<Rightarrow> [n]) else []) @
     partition_scores b rv table c es"
  by (simp add: partition_scores_def List.map_filter_simps split: option.splits)

lemma step_task_scores:
  "step_task rv table c r (s, f) =
     (s @ partition_scores False rv table c [(g, r)], f @ partition_scores True rv table c [(g, r)])"
  by (simp add: step_task_def partition_scores_def List.map_filter_simps split: option.splits)

lemma partition_scores_split:
  "partition_scores b rv table c ((g, r) # es) =
     partition_scores b rv table c [(g, r)] @ partition_scores b rv table c es"
  by (simp add: partition_scores_def List.map_filter_simps split: option.splits)

lemma games_loop_pure:
  assumes "ns_outcome ns = oc"
    and "\<forall>(g, r) \<in> set es. map_of oc g = Some r"
    and "pure_batch ev rv oc"
    and "ns_criterion ns = PStr c"
    and "string_keyed (ns_nl2int ns)"
  shows "\<exists>g t. games_loop ev (length oc) (map fst es) ns =
     Inr (ns\<lparr>ns_game := g, ns_tmp_dic := t,
             ns_task := (fst (ns_task ns) @ partition_scores False rv (\<lambda>v. ns_nl2int ns (PStr v)) c es,
                         snd (ns_task ns) @ partition_scores True rv (\<lambda>v. ns_nl2int ns (PStr v)) c es)\<rparr>)"
  using assms
proof (induction es arbitrary: ns)
  case Nil
  have "games_loop ev (length oc) (map fst []) ns =
     Inr (ns\<lparr>ns_game := ns_game ns, ns_tmp_dic := ns_tmp_dic ns,
             ns_task := (fst (ns_task ns) @ partition_scores False rv (\<lambda>v. ns_nl2int ns (PStr v)) c [],
                         snd (ns_task ns) @ partition_scores True rv (\<lambda>v. ns_nl2int ns (PStr v)) c [])\<rparr>)"
    using Nil.prems(1) by (simp add: partition_scores_def List.map_filter_simps)
  then show ?case by blast
next
  case (Cons e es)
  obtain g r where e: "e = (g, r)" by (cases e)
  let ?table = "\<lambda>v. ns_nl2int ns (PStr v)"
  from Cons.prems(2) e have look: "map_of oc g = Some r"
    and rest: "\<forall>(g, r) \<in> set es. map_of oc g = Some r" by auto
  from look have "(g, r) \<in> set oc" by (rule map_of_SomeD)
  with Cons.prems(3) have pure:
    "\<forall>s. map_of r ''estimated_performance'' = Some (PStr s) \<longrightarrow> evaluates_purely ev s (rv s)"
    by (auto simp: pure_batch_def)
  from look Cons.prems(1) have look': "map_of (ns_outcome ns) g = Some r" by simp
  from game_step_pure [OF look' pure Cons.prems(4) Cons.prems(5)]
  obtain t where step: "game_step ev (ns\<lparr>ns_game := g\<rparr>) =
     ns\<lparr>ns_game := g, ns_tmp_dic := t, ns_task := step_task rv ?table c r (ns_task ns)\<rparr>"
    by blast
  let ?ns1 = "ns\<lparr>ns_game := g, ns_tmp_dic := t, ns_task := step_task rv ?table c r (ns_task ns)\<rparr>"
  have p1: "ns_outcome ?ns1 = oc" using Cons.prems(1) by simp
  have p4: "ns_criterion ?ns1 = PStr c" using Cons.prems(4) by simp
  have p5: "string_keyed (ns_nl2int ?ns1)" using Cons.prems(5) by simp
  from Cons.IH [OF p1 rest Cons.prems(3) p4 p5]
  obtain g' t' where loop: "games_loop ev (length oc) (map fst es) ?ns1 =
     Inr (?ns1\<lparr>ns_game := g', ns_tmp_dic := t',
             ns_task := (fst (ns_task ?ns1) @ partition_scores False rv (\<lambda>v. ns_nl2int ?ns1 (PStr v)) c es,
                         snd (ns_task ?ns1) @ partition_scores True rv (\<lambda>v. ns_nl2int ?ns1 (PStr v)) c es)\<rparr>)"
    by blast
  have task: "step_task rv ?table c r (ns_task ns) =
      (fst (ns_task ns) @ partition_scores False rv ?table c [(g, r)],
       snd (ns_task ns) @ partition_scores True rv ?table c [(g, r)])"
    using step_task_scores [of rv ?table c r "fst (ns_task ns)" "snd (ns_task ns)" g] by simp
  have "games_loop ev (length oc) (map fst (e # es)) ns =
     Inr (ns\<lparr>ns_game := g', ns_tmp_dic := t',
             ns_task := (fst (ns_task ns) @ partition_scores False rv ?table c (e # es),
                         snd (ns_task ns) @ partition_scores True rv ?table c (e # es))\<rparr>)"
    using Cons.prems(1) loop
    by (simp add: e step task partition_scores_split [of _ rv ?table c g r es])
  then show ?case by blast
qed

lemma criteria_loop_pure:
  assumes "ns_outcome ns = oc"
    and "distinct (map fst oc)"
    and "pure_batch ev rv oc"
    and "ns_nl2int ns = nl"
    and "string_keyed nl"
  shows "\<exists>results' ns'.
     criteria_loop lib ev (map PStr names) (results, ns) = Inr (results', ns') \<and>
     ns_outcome ns' = oc \<and> ns_nl2int ns' = nl \<and>
     ns_dictionary_for_eval ns' = ns_dictionary_for_eval ns \<and>
     (\<forall>c. average_s results' (PStr c) =
        (if c \<in> set names
         then Some (np_mean lib (partition_scores False rv (\<lambda>v. nl (PStr v)) c oc))
         else average_s results (PStr c))) \<and>
     (\<forall>c. average_f results' (PStr c) =
        (if c \<in> set names
         then Some (np_mean lib (partition_scores True rv (\<lambda>v. nl (PStr v)) c oc))
         else average_f results (PStr c))) \<and>
     (\<forall>c. conf_interval_s results' (PStr c) =
        (if c \<in> set names
         then Some (norm_interval lib
                (np_mean lib (partition_scores False rv (\<lambda>v. nl (PStr v)) c oc))
                (stats_sem lib (partition_scores False rv (\<lambda>v. nl (PStr v)) c oc)))
         else conf_interval_s results (PStr c))) \<and>
     (\<forall>c. conf_interval_f results' (PStr c) =
        (if c \<in> set names
         then Some (norm_interval lib
                (np_mean lib (partition_scores True rv (\<lambda>v. nl (PStr v)) c oc))
                (stats_sem lib (partition_scores True rv (\<lambda>v. nl (PStr v)) c oc)))
         else conf_interval_f results (PStr c)))"
  using assms(1,4)
proof (induction names arbitrary: results ns)
  case Nil
  then show ?case by simp
next
  case (Cons c names)
  let ?table = "\<lambda>v. nl (PStr v)"
  let ?ns1 = "ns\<lparr>ns_criterion := PStr c, ns_task := ([], [])\<rparr>"
  have all: "\<forall>(g, r) \<in> set oc. map_of oc g = Some r"
    using assms(2) by auto
  have q1: "ns_outcome ?ns1 = oc" using Cons.prems(1) by simp
  have q4: "ns_criterion ?ns1 = PStr c" by simp
  have q5: "string_keyed (ns_nl2int ?ns1)" using Cons.prems(2) assms(5) by simp
  from games_loop_pure [OF q1 all assms(3) q4 q5]
  obtain g t where loop: "games_loop ev (length oc) (map fst oc) ?ns1 =
     Inr (?ns1\<lparr>ns_game := g, ns_tmp_dic := t,
             ns_task := (fst (ns_task ?ns1) @ partition_scores False rv (\<lambda>v. ns_nl2int ?ns1 (PStr v)) c oc,
                         snd (ns_task ?ns1) @ partition_scores True rv (\<lambda>v. ns_nl2int ?ns1 (PStr v)) c oc)\<rparr>)"
    by blast
  let ?S = "partition_scores False rv ?table c oc"
  let ?F = "partition_scores True rv ?table c oc"
  let ?ns2 = "ns\<lparr>ns_criterion := PStr c, ns_game := g, ns_tmp_dic := t, ns_task := (?S, ?F)\<rparr>"
  let ?results1 = "\<lparr> average_s = (average_s results)(PStr c \<mapsto> np_mean lib ?S),
                  average_f = (average_f results)(PStr c \<mapsto> np_mean lib ?F),
                  conf_interval_s = (conf_interval_s results)(PStr c \<mapsto>
                     norm_interval lib (np_mean lib ?S) (stats_sem lib ?S)),
                  conf_interval_f = (conf_interval_f results)(PStr c \<mapsto>
                     norm_interval lib (np_mean lib ?F) (stats_sem lib ?F)) \<rparr>"
  have loop': "games_loop ev (length (ns_outcome ?ns1)) (map fst (ns_outcome ?ns1)) ?ns1 = Inr ?ns2"
    using loop Cons.prems by simp
  have round: "criteria_loop lib ev (map PStr (c # names)) (results, ns) =
      criteria_loop lib ev (map PStr names) (?results1, ?ns2)"
    using loop' by (simp add: Let_def py_hashable_def py_key_def del: games_loop.simps)
  have r1: "ns_outcome ?ns2 = oc" using Cons.prems(1) by simp
  have r4: "ns_nl2int ?ns2 = nl" using Cons.prems(2) by simp
  from Cons.IH [OF r1 r4, of ?results1]
  obtain results' ns' where
    fin: "criteria_loop lib ev (map PStr names) (?results1, ?ns2) = Inr (results', ns')"
    and o: "ns_outcome ns' = oc" and n: "ns_nl2int ns' = nl"
    and d: "ns_dictionary_for_eval ns' = ns_dictionary_for_eval ?ns2"
    and a1: "\<forall>c'. average_s results' (PStr c') =
        (if c' \<in> set names then Some (np_mean lib (partition_scores False rv ?table c' oc))
         else average_s ?results1 (PStr c'))"
    and a2: "\<forall>c'. average_f results' (PStr c') =
        (if c' \<in> set names then Some (np_mean lib (partition_scores True rv ?table c' oc))
         else average_f ?results1 (PStr c'))"
    and a3: "\<forall>c'. conf_interval_s results' (PStr c') =
        (if c' \<in> set names
         then Some (norm_interval lib (np_mean lib (partition_scores False rv ?table c' oc))
                (stats_sem lib (partition_scores False rv ?table c' oc)))
         else conf_interval_s ?results1 (PStr c'))"
    and a4: "\<forall>c'. conf_interval_f results' (PStr c') =
        (if c' \<in> set names
         then Some (norm_interval lib (np_mean lib (partition_scores True rv ?table c' oc))
                (stats_sem lib (partition_scores True rv ?table c' oc)))
         else conf_interval_f ?results1 (PStr c'))"
    by blast
  have "criteria_loop lib ev (map PStr (c # names)) (results, ns) = Inr (results', ns')"
    using round fin by simp
  moreover have "ns_dictionary_for_eval ns' = ns_dictionary_for_eval ns" using d by simp
  moreover have "\<forall>c'. average_s results' (PStr c') =
        (if c' \<in> set (c # names) then Some (np_mean lib (partition_scores False rv ?table c' oc))
         else average_s results (PStr c'))"
    using a1 by auto
  moreover have "\<forall>c'. average_f results' (PStr c') =
        (if c' \<in> set (c # names) then Some (np_mean lib (partition_scores True rv ?table c' oc))
         else average_f results (PStr c'))"
    using a2 by auto
  moreover have "\<forall>c'. conf_interval_s results' (PStr c') =
        (if c' \<in> set (c # names)
         then Some (norm_interval lib (np_mean lib (partition_scores False rv ?table c' oc))
                (stats_sem lib (partition_scores False rv ?table c' oc)))
         else conf_interval_s results (PStr c'))"
    using a3 by auto
  moreover have "\<forall>c'. conf_interval_f results' (PStr c') =
        (if c' \<in> set (c # names)
         then Some (norm_interval lib (np_mean lib (partition_scores True rv ?table c' oc))
                (stats_sem lib (partition_scores True rv ?table c' oc)))
         else conf_interval_f results (PStr c'))"
    using a4 by auto
  ultimately show ?case using o n by blast
qed

lemma store_value_keys:
  "map fst (map (\<lambda>(name, c). (PStr name, f c)) store) = map PStr (map fst store)"
  by (induction store) auto

lemma store_names: "map (\<lambda>(name, c). PStr name) store = map PStr (map fst store)"
  by (induction store) auto

lemma aggregate_pure:
  assumes doc: "ev criteria_text ns = (Inr (store_value store), ns)"
    and names: "distinct (map fst store)"
    and games: "distinct (map fst (ns_outcome ns))"
    and pure: "pure_batch ev rv (ns_outcome ns)"
  shows "\<exists>results ns'.
     aggregate lib ev (Some criteria_text) ns = Inr (results, ns') \<and>
     (\<forall>c. average_s results (PStr c) =
        (if c \<in> set (map fst store)
         then Some (np_mean lib (partition_scores False rv (label_table store Map.empty) c (ns_outcome ns)))
         else None)) \<and>
     (\<forall>c. average_f results (PStr c) =
        (if c \<in> set (map fst store)
         then Some (np_mean lib (partition_scores True rv (label_table store Map.empty) c (ns_outcome ns)))
         else None)) \<and>
     (\<forall>c. conf_interval_s results (PStr c) =
        (if c \<in> set (map fst store)
         then Some (norm_interval lib
                (np_mean lib (partition_scores False rv (label_table store Map.empty) c (ns_outcome ns)))
                (stats_sem lib (partition_scores False rv (label_table store Map.empty) c (ns_outcome ns))))
         else None)) \<and>
     (\<forall>c. conf_interval_f results (PStr c) =
        (if c \<in> set (map fst store)
         then Some (norm_interval lib
                (np_mean lib (partition_scores True rv (label_table store Map.empty) c (ns_outcome ns)))
                (stats_sem lib (partition_scores True rv (label_table store Map.empty) c (ns_outcome ns))))
         else None))"
proof -
  let ?d = "store_value store"
  let ?ns1 = "ns\<lparr>ns_dictionary_for_eval := Some ?d\<rparr>"
  have keys: "py_keys ?d = Inr (map PStr (map fst store))"
    by (simp add: py_keys_def store_value_def store_value_keys del: map_map)
  have iter: "py_iter ?d = Inr (map (\<lambda>(name, c). PStr name) store)"
    by (simp add: py_iter_def store_value_def store_value_keys store_names del: map_map)
  have "\<forall>(name, c) \<in> set store. map_of store name = Some c"
    using names by auto
  from build_nl2int_store [OF this, of Map.empty]
  obtain nl where build: "build_nl2int ?d (map (\<lambda>(name, c). PStr name) store) Map.empty = Inr nl"
    and table: "(\<lambda>v. nl (PStr v)) = label_table store (\<lambda>v. None)"
    and other: "\<forall>x. (\<forall>v. x \<noteq> PStr v) \<longrightarrow> nl x = None"
    by auto
  have keyed: "string_keyed nl"
    unfolding string_keyed_def using other by (metis option.distinct(1))
  let ?ns2 = "?ns1\<lparr>ns_nl2int := nl\<rparr>"
  let ?empty = "\<lparr> average_s = Map.empty, average_f = Map.empty,
                  conf_interval_s = Map.empty, conf_interval_f = Map.empty \<rparr>"
  have agg: "aggregate lib ev (Some criteria_text) ns =
      criteria_loop lib ev (map PStr (map fst store)) (?empty, ?ns2)"
    by (simp add: aggregate_def doc keys iter build)
  have o: "ns_outcome ?ns2 = ns_outcome ns" by simp
  have n: "ns_nl2int ?ns2 = nl" by simp
  from criteria_loop_pure [OF o games pure n keyed, of lib "map fst store" ?empty]
  show ?thesis
    unfolding agg table by auto
qed

lemma label_scores_None:
  "label_scores vs k m v = None \<longleftrightarrow> m v = None \<and> v \<notin> set vs"
  by (induction vs arbitrary: k m) auto

lemma label_table_None:
  "label_table d m v = None \<longleftrightarrow> m v = None \<and> (\<forall>(name, c) \<in> set d. v \<notin> set (accepted_values c))"
proof (induction d arbitrary: m)
  case Nil
  show ?case by simp
next
  case (Cons x xs)
  obtain name c where x: "x = (name, c)" by (cases x)
  show ?case by (auto simp: x Cons.IH label_scores_None)
qed

lemma partition_scores_skip:
  "record_score rv table criterion r = None \<Longrightarrow>
   partition_scores b rv table criterion (pre @ (game, r) # post) =
   partition_scores b rv table criterion (pre @ post)"
  by (simp add: partition_scores_def List.map_filter_def)

lemma pure_batch_subset:
  "pure_batch ev rv outcome \<Longrightarrow> set outcome' \<subseteq> set outcome \<Longrightarrow> pure_batch ev rv outcome'"
  by (auto simp: pure_batch_def)


text \<open>
  The first statement swallows what it raises: when the criteria file cannot be read, or
  its text does not evaluate, and \<^verbatim>\<open>dictionary_for_eval\<close> is unbound, the cell ends
  with \<^verbatim>\<open>NameError\<close> at the next statement.
\<close>

lemma aggregate_unbound:
  assumes "ns_dictionary_for_eval ns = None"
    and "criteria_file = None \<or> (\<exists>criteria_text e. criteria_file = Some criteria_text \<and> ev criteria_text ns = (Inl e, ns))"
  shows "aggregate lib ev criteria_file ns = Inl NameError"
  using assms by (auto simp: aggregate_def)

text \<open>
  A document that is no dictionary ends the cell with \<^verbatim>\<open>AttributeError\<close> at
  \<^verbatim>\<open>dictionary_for_eval.keys()\<close>.
\<close>

lemma aggregate_no_dictionary:
  assumes "ev criteria_text ns = (Inr (PList xs), ns')"
  shows "aggregate lib ev (Some criteria_text) ns = Inl AttributeError"
  using assms by (simp add: aggregate_def py_keys_def)


text \<open>
  C4. The claim asks for the position of a label in the value list of its own
  criterion. \<^verbatim>\<open>nl2int\<close> is keyed by the label alone, so a later criterion that lists the
  same label overwrites its score: with \<^verbatim>\<open>clarity\<close> over \<^verbatim>\<open>[low, high]\<close> and
  \<^verbatim>\<open>errors\<close> over \<^verbatim>\<open>[none, low, high]\<close>, the label \<^verbatim>\<open>low\<close> stands at position 0 of
  \<^verbatim>\<open>clarity\<close> and a record with \<^verbatim>\<open>clarity = low\<close> is scored 1.
\<close>

theorem nl2int_shared_label_overwritten:
  \<open>accepted_values \<lparr>description = ''how clear the answer is'', accepted_values = [''low'', ''high'']\<rparr> ! 0 = ''low'' \<and>
   map_sum id (\<lambda>nl2int. nl2int (PStr ''low''))
     (build_nl2int
        (store_value
          [(''clarity'', \<lparr>description = ''how clear the answer is'', accepted_values = [''low'', ''high'']\<rparr>),
           (''errors'', \<lparr>description = ''how many errors'', accepted_values = [''none'', ''low'', ''high'']\<rparr>)])
        [PStr ''clarity'', PStr ''errors''] Map.empty) = Inr (Some 1) \<and>
   map_sum id (\<lambda>(results, ns). (ns_nl2int ns (PStr ''low''), average_s results (PStr ''clarity'')))
     (aggregate list_lib
        (\<lambda>s ns.
           if s = ''{"clarity": {"description": "how clear the answer is", "accepted_values": ["low", "high"]}, "errors": {"description": "how many errors", "accepted_values": ["none", "low", "high"]}}''
           then (Inr (store_value
             [(''clarity'', \<lparr>description = ''how clear the answer is'', accepted_values = [''low'', ''high'']\<rparr>),
              (''errors'', \<lparr>description = ''how many errors'', accepted_values = [''none'', ''low'', ''high'']\<rparr>)]), ns)
           else if s = ''{"clarity": "low", "errors": "none"}''
           then (Inr (PDict [(PStr ''clarity'', PStr ''low''), (PStr ''errors'', PStr ''none'')]), ns)
           else (Inl (PyException s), ns))
        (Some ''{"clarity": {"description": "how clear the answer is", "accepted_values": ["low", "high"]}, "errors": {"description": "how many errors", "accepted_values": ["none", "low", "high"]}}'')
        (fresh_namespace
          [(''prealgebra_0.json'',
            [(''actual_success'', PStr ''true''),
             (''estimated_performance'', PStr ''{"clarity": "low", "errors": "none"}'')])])) =
   Inr (Some 1, Some [1])\<close>
  by code_simp


text \<open>
  C5. The claim asks for the mean and the interval of each partition over the ordinal
  positions of the records' values. On the same two criteria, with two records labelled
  \<^verbatim>\<open>false\<close> whose values for \<^verbatim>\<open>clarity\<close> are \<^verbatim>\<open>low\<close> and \<^verbatim>\<open>high\<close> (positions 0
  and 1) and one labelled \<^verbatim>\<open>true\<close> with \<^verbatim>\<open>high\<close>, the statistics of the failed
  partition are computed from 1 and 2 and those of the success partition from 2: every
  record is counted, each with the overwritten score.
\<close>

theorem ordinal_statistics_shared_label:
  \<open>[''low'', ''high''] ! 0 = ''low'' \<and> [''low'', ''high''] ! 1 = ''high'' \<and>
   map_sum id (\<lambda>(results, ns). (average_f results (PStr ''clarity''), average_s results (PStr ''clarity'')))
     (aggregate list_lib
        (\<lambda>s ns.
           if s = ''{"clarity": {"description": "how clear the answer is", "accepted_values": ["low", "high"]}, "errors": {"description": "how many errors", "accepted_values": ["none", "low", "high"]}}''
           then (Inr (store_value
             [(''clarity'', \<lparr>description = ''how clear the answer is'', accepted_values = [''low'', ''high'']\<rparr>),
              (''errors'', \<lparr>description = ''how many errors'', accepted_values = [''none'', ''low'', ''high'']\<rparr>)]), ns)
           else if s = ''{"clarity": "low", "errors": "high"}''
           then (Inr (PDict [(PStr ''clarity'', PStr ''low''), (PStr ''errors'', PStr ''high'')]), ns)
           else if s = ''{"clarity": "high", "errors": "none"}''
           then (Inr (PDict [(PStr ''clarity'', PStr ''high''), (PStr ''errors'', PStr ''none'')]), ns)
           else (Inl (PyException s), ns))
        (Some ''{"clarity": {"description": "how clear the answer is", "accepted_values": ["low", "high"]}, "errors": {"description": "how many errors", "accepted_values": ["none", "low", "high"]}}'')
        (fresh_namespace
          [(''prealgebra_0.json'',
            [(''actual_success'', PStr ''false''),
             (''estimated_performance'', PStr ''{"clarity": "low", "errors": "high"}'')]),
           (''prealgebra_1.json'',
            [(''actual_success'', PStr ''false''),
             (''estimated_performance'', PStr ''{"clarity": "high", "errors": "none"}'')]),
           (''prealgebra_2.json'',
            [(''actual_success'', PStr ''true''),
             (''estimated_performance'', PStr ''{"clarity": "high", "errors": "none"}'')])])) =
   Inr (Some [1, 2], Some [2])\<close>
  by code_simp


text \<open>
  C3, as claimed, fails: a record that assigns \<^verbatim>\<open>banana\<close>, a label outside the
  accepted values, raises no error; the cell ends normally with the scores of the other
  record alone.
\<close>

theorem aggregate_skips_counterexample:
  \<open>''banana'' \<notin> set [''incorrect'', ''correct''] \<and>
   map_sum id (\<lambda>(results, ns). (average_s results (PStr ''accuracy''), average_f results (PStr ''accuracy'')))
     (aggregate list_lib
        (\<lambda>s ns.
           if s = ''{"accuracy": {"description": "is the answer right", "accepted_values": ["incorrect", "correct"]}}''
           then (Inr (store_value
             [(''accuracy'', \<lparr>description = ''is the answer right'', accepted_values = [''incorrect'', ''correct'']\<rparr>)]), ns)
           else if s = ''{"accuracy": "correct"}'' then (Inr (PDict [(PStr ''accuracy'', PStr ''correct'')]), ns)
           else if s = ''{"accuracy": "banana"}'' then (Inr (PDict [(PStr ''accuracy'', PStr ''banana'')]), ns)
           else (Inl (PyException s), ns))
        (Some ''{"accuracy": {"description": "is the answer right", "accepted_values": ["incorrect", "correct"]}}'')
        (fresh_namespace
          [(''prealgebra_0.json'',
            [(''actual_success'', PStr ''true''), (''estimated_performance'', PStr ''{"accuracy": "correct"}'')]),
           (''prealgebra_1.json'',
            [(''actual_success'', PStr ''true''), (''estimated_performance'', PStr ''{"accuracy": "banana"}'')])])) =
   Inr (Some [1], Some [])\<close>
  by code_simp


text \<open>
  C3, amended. Let the criteria document evaluate purely to the dictionary of a store
  with distinct names, and let every text of the batch evaluate purely. Then the
  aggregation checks no domain and ends without an error: a record that assigns to a
  criterion a label found in the accepted values of no criterion is skipped for that
  criterion, so the four statistics of the criterion are those of the batch without the
  record.
\<close>

theorem aggregate_skips_unknown_label:
  assumes doc: "evaluates_purely ev criteria_text (Inr (store_value store))"
    and names: "distinct (map fst store)"
    and games: "distinct (map fst (pre @ (game, game_record) # post))"
    and pure: "pure_batch ev rv (pre @ (game, game_record) # post)"
    and label: "assigned_label rv criterion game_record = Some v"
    and unknown: "\<forall>(name, c) \<in> set store. v \<notin> set (accepted_values c)"
  shows "\<exists>results ns' results0 ns0'.
     aggregate lib ev (Some criteria_text) (ns\<lparr>ns_outcome := pre @ (game, game_record) # post\<rparr>) =
       Inr (results, ns') \<and>
     aggregate lib ev (Some criteria_text) (ns\<lparr>ns_outcome := pre @ post\<rparr>) = Inr (results0, ns0') \<and>
     average_s results (PStr criterion) = average_s results0 (PStr criterion) \<and>
     average_f results (PStr criterion) = average_f results0 (PStr criterion) \<and>
     conf_interval_s results (PStr criterion) = conf_interval_s results0 (PStr criterion) \<and>
     conf_interval_f results (PStr criterion) = conf_interval_f results0 (PStr criterion)"
proof -
  let ?with = "ns\<lparr>ns_outcome := pre @ (game, game_record) # post\<rparr>"
  let ?without = "ns\<lparr>ns_outcome := pre @ post\<rparr>"
  let ?table = "label_table store Map.empty"
  have d1: "ev criteria_text ?with = (Inr (store_value store), ?with)"
    and d2: "ev criteria_text ?without = (Inr (store_value store), ?without)"
    using doc by (simp_all add: evaluates_purely_def)
  have g1: "distinct (map fst (ns_outcome ?with))" using games by simp
  have g2: "distinct (map fst (ns_outcome ?without))" using games by simp
  have p1: "pure_batch ev rv (ns_outcome ?with)" using pure by simp
  have p2: "pure_batch ev rv (ns_outcome ?without)"
    using pure_batch_subset [OF pure, of "pre @ post"] by auto
  have "?table v = None" using unknown by (simp add: label_table_None)
  with label have skip: "record_score rv ?table criterion game_record = None"
    by (simp add: record_score_def split: option.splits)
  from aggregate_pure [OF d1 names g1 p1, of lib]
  obtain results ns' where a: "aggregate lib ev (Some criteria_text) ?with = Inr (results, ns')"
    and a1: "\<forall>c. average_s results (PStr c) =
        (if c \<in> set (map fst store)
         then Some (np_mean lib (partition_scores False rv ?table c (ns_outcome ?with))) else None)"
    and a2: "\<forall>c. average_f results (PStr c) =
        (if c \<in> set (map fst store)
         then Some (np_mean lib (partition_scores True rv ?table c (ns_outcome ?with))) else None)"
    and a3: "\<forall>c. conf_interval_s results (PStr c) =
        (if c \<in> set (map fst store)
         then Some (norm_interval lib
                (np_mean lib (partition_scores False rv ?table c (ns_outcome ?with)))
                (stats_sem lib (partition_scores False rv ?table c (ns_outcome ?with)))) else None)"
    and a4: "\<forall>c. conf_interval_f results (PStr c) =
        (if c \<in> set (map fst store)
         then Some (norm_interval lib
                (np_mean lib (partition_scores True rv ?table c (ns_outcome ?with)))
                (stats_sem lib (partition_scores True rv ?table c (ns_outcome ?with)))) else None)"
    by blast
  from aggregate_pure [OF d2 names g2 p2, of lib]
  obtain results0 ns0' where b: "aggregate lib ev (Some criteria_text) ?without = Inr (results0, ns0')"
    and b1: "\<forall>c. average_s results0 (PStr c) =
        (if c \<in> set (map fst store)
         then Some (np_mean lib (partition_scores False rv ?table c (ns_outcome ?without))) else None)"
    and b2: "\<forall>c. average_f results0 (PStr c) =
        (if c \<in> set (map fst store)
         then Some (np_mean lib (partition_scores True rv ?table c (ns_outcome ?without))) else None)"
    and b3: "\<forall>c. conf_interval_s results0 (PStr c) =
        (if c \<in> set (map fst store)
         then Some (norm_interval lib
                (np_mean lib (partition_scores False rv ?table c (ns_outcome ?without)))
                (stats_sem lib (partition_scores False rv ?table c (ns_outcome ?without)))) else None)"
    and b4: "\<forall>c. conf_interval_f results0 (PStr c) =
        (if c \<in> set (map fst store)
         then Some (norm_interval lib
                (np_mean lib (partition_scores True rv ?table c (ns_outcome ?without)))
                (stats_sem lib (partition_scores True rv ?table c (ns_outcome ?without)))) else None)"
    by blast
  have same: "partition_scores b rv ?table criterion (ns_outcome ?with) =
      partition_scores b rv ?table criterion (ns_outcome ?without)" for b
    using partition_scores_skip [OF skip] by simp
  have "average_s results (PStr criterion) = average_s results0 (PStr criterion)"
    using a1 b1 same by simp
  moreover have "average_f results (PStr criterion) = average_f results0 (PStr criterion)"
    using a2 b2 same by simp
  moreover have "conf_interval_s results (PStr criterion) = conf_interval_s results0 (PStr criterion)"
    using a3 b3 same by simp
  moreover have "conf_interval_f results (PStr criterion) = conf_interval_f results0 (PStr criterion)"
    using a4 b4 same by simp
  ultimately show ?thesis using a b by blast
qed

text \<open>
  The theorem at a batch of three records, the second assigning \<^verbatim>\<open>banana\<close>: the
  statistics are those of the first and the third.
\<close>

theorem aggregate_skips_unknown_label_witness:
  \<open>map_sum id (\<lambda>(results, ns). (average_s results (PStr ''accuracy''), average_f results (PStr ''accuracy'')))
     (aggregate list_lib
        (\<lambda>s ns.
           if s = ''{"accuracy": {"description": "is the answer right", "accepted_values": ["incorrect", "correct"]}}''
           then (Inr (store_value
             [(''accuracy'', \<lparr>description = ''is the answer right'', accepted_values = [''incorrect'', ''correct'']\<rparr>)]), ns)
           else if s = ''{"accuracy": "correct"}'' then (Inr (PDict [(PStr ''accuracy'', PStr ''correct'')]), ns)
           else if s = ''{"accuracy": "incorrect"}'' then (Inr (PDict [(PStr ''accuracy'', PStr ''incorrect'')]), ns)
           else if s = ''{"accuracy": "banana"}'' then (Inr (PDict [(PStr ''accuracy'', PStr ''banana'')]), ns)
           else (Inl (PyException s), ns))
        (Some ''{"accuracy": {"description": "is the answer right", "accepted_values": ["incorrect", "correct"]}}'')
        (fresh_namespace
          [(''prealgebra_0.json'',
            [(''actual_success'', PStr ''true''), (''estimated_performance'', PStr ''{"accuracy": "correct"}'')]),
           (''prealgebra_1.json'',
            [(''actual_success'', PStr ''false''), (''estimated_performance'', PStr ''{"accuracy": "banana"}'')]),
           (''prealgebra_2.json'',
            [(''actual_success'', PStr ''false''), (''estimated_performance'', PStr ''{"accuracy": "incorrect"}'')])])) =
   Inr (Some [1], Some [0])\<close>
proof -
  let ?text = \<open>''{"accuracy": {"description": "is the answer right", "accepted_values": ["incorrect", "correct"]}}''\<close>
  let ?store = "[(''accuracy'', \<lparr>description = ''is the answer right'', accepted_values = [''incorrect'', ''correct'']\<rparr>)]"
  let ?rv = \<open>\<lambda>s. if s = ''{"accuracy": "correct"}'' then Inr (PDict [(PStr ''accuracy'', PStr ''correct'')])
           else if s = ''{"accuracy": "incorrect"}'' then Inr (PDict [(PStr ''accuracy'', PStr ''incorrect'')])
           else if s = ''{"accuracy": "banana"}'' then Inr (PDict [(PStr ''accuracy'', PStr ''banana'')])
           else Inl (PyException s)\<close>
  let ?ev = \<open>\<lambda>s ns.
           if s = ?text then (Inr (store_value ?store), ns)
           else if s = ''{"accuracy": "correct"}'' then (Inr (PDict [(PStr ''accuracy'', PStr ''correct'')]), ns)
           else if s = ''{"accuracy": "incorrect"}'' then (Inr (PDict [(PStr ''accuracy'', PStr ''incorrect'')]), ns)
           else if s = ''{"accuracy": "banana"}'' then (Inr (PDict [(PStr ''accuracy'', PStr ''banana'')]), ns)
           else (Inl (PyException s), ns)\<close>
  let ?good = \<open>(''prealgebra_0.json'',
            [(''actual_success'', PStr ''true''), (''estimated_performance'', PStr ''{"accuracy": "correct"}'')])\<close>
  let ?bad = \<open>[(''actual_success'', PStr ''false''), (''estimated_performance'', PStr ''{"accuracy": "banana"}'')]\<close>
  let ?last = \<open>(''prealgebra_2.json'',
            [(''actual_success'', PStr ''false''), (''estimated_performance'', PStr ''{"accuracy": "incorrect"}'')])\<close>
  note inst = aggregate_skips_unknown_label
    [where ev = ?ev and criteria_text = ?text and store = ?store and pre = "[?good]"
       and game = "''prealgebra_1.json''" and game_record = ?bad and post = "[?last]" and rv = ?rv
       and criterion = "''accuracy''" and v = "''banana''" and lib = list_lib
       and ns = "fresh_namespace []"]
  have doc: "evaluates_purely ?ev ?text (Inr (store_value ?store))"
    by (simp add: evaluates_purely_def)
  have names: "distinct (map fst ?store)" by simp
  have games: "distinct (map fst ([?good] @ (''prealgebra_1.json'', ?bad) # [?last]))" by simp
  have pure: "pure_batch ?ev ?rv ([?good] @ (''prealgebra_1.json'', ?bad) # [?last])"
    by (simp add: pure_batch_def evaluates_purely_def)
  have label: "assigned_label ?rv ''accuracy'' ?bad = Some ''banana''"
    by code_simp
  have unknown: "\<forall>(name, c) \<in> set ?store. ''banana'' \<notin> set (accepted_values c)"
    by simp
  from inst [OF doc names games pure label unknown]
  obtain results ns' results0 ns0' where
    a: "aggregate list_lib ?ev (Some ?text) (fresh_namespace [?good, (''prealgebra_1.json'', ?bad), ?last]) = Inr (results, ns')"
    and b: "aggregate list_lib ?ev (Some ?text) (fresh_namespace [?good, ?last]) = Inr (results0, ns0')"
    and s: "average_s results (PStr ''accuracy'') = average_s results0 (PStr ''accuracy'')"
    and f: "average_f results (PStr ''accuracy'') = average_f results0 (PStr ''accuracy'')"
    by auto
  have without: "map_sum id (\<lambda>(results, ns). (average_s results (PStr ''accuracy''), average_f results (PStr ''accuracy'')))
     (aggregate list_lib ?ev (Some ?text) (fresh_namespace [?good, ?last])) = Inr (Some [1], Some [0])"
    by code_simp
  from without show ?thesis
    unfolding a b by (simp add: s f)
qed

section \<open>Properties of the persisted criteria document\<close>

lemma hex_val_hex_digit: "n < 16 \<Longrightarrow> hex_val (hex_digit n) = Some n"
  by (auto simp: hex_val_def hex_digit_def Let_def)

lemma hex4_digits:
  "a < 16 \<Longrightarrow> b < 16 \<Longrightarrow> hex4 (CHR ''0'') (CHR ''0'') (hex_digit a) (hex_digit b) = Some (a * 16 + b)"
  by (simp add: hex4_def hex_val_hex_digit) (simp add: hex_val_def)

lemma lex_string_body_escape:
  "lex_string_body (escape_char c @ rest) =
     map_option (\<lambda>(s, r). (c # s, r)) (lex_string_body rest)"
proof -
  let ?k = "of_char c :: nat"
  have k: "?k < 256" by simp
  have d: "?k div 16 < 16" using k by linarith
  have m: "?k mod 16 < 16" by simp
  have h: "hex4 (CHR ''0'') (CHR ''0'') (hex_digit (?k div 16)) (hex_digit (?k mod 16)) = Some ?k"
    using hex4_digits [OF d m] by simp
  consider (quote) "c = CHR 0x22" | (backslash) "c = CHR 0x5C" | (nl) "c = CHR 0x0A"
    | (cr) "c = CHR 0x0D" | (tab) "c = CHR 0x09" | (bs) "c = CHR 0x08" | (ff) "c = CHR 0x0C"
    | (hex) "c \<notin> {CHR 0x22, CHR 0x5C, CHR 0x0A, CHR 0x0D, CHR 0x09, CHR 0x08, CHR 0x0C}"
        "?k < 32 \<or> 126 < ?k"
    | (raw) "c \<notin> {CHR 0x22, CHR 0x5C, CHR 0x0A, CHR 0x0D, CHR 0x09, CHR 0x08, CHR 0x0C}"
        "\<not> (?k < 32 \<or> 126 < ?k)"
    by blast
  then show ?thesis
  proof cases
    case hex
    then have "escape_char c =
        [CHR 0x5C, CHR ''u'', CHR ''0'', CHR ''0'', hex_digit (?k div 16), hex_digit (?k mod 16)]"
      by (simp add: escape_char_def Let_def)
    then show ?thesis using h k by simp
  next
    case raw
    then have "escape_char c = [c]" by (simp add: escape_char_def Let_def)
    with raw show ?thesis by simp
  qed (simp_all add: escape_char_def unescape_def)
qed

lemma lex_string_body_written:
  "lex_string_body (concat (map escape_char s) @ CHR 0x22 # rest) = Some (s, rest)"
  by (induction s) (simp_all add: lex_string_body_escape del: lex_string_body.simps(2), simp)

lemma lex_render_token: "lex (render_token t @ rest) = map_option (\<lambda>ts. t # ts) (lex rest)"
proof (cases t)
  case (TString s)
  then show ?thesis
    by (simp add: write_string_def json_space_def lex_string_body_written)
qed (simp_all add: json_space_def punctuation_def)

lemma lex_rendered: "lex (concat (map render_token ts)) = Some ts"
  by (induction ts) (simp_all add: lex_render_token del: lex.simps(2))

lemma separated_Cons: "separated (x # xs) = x @ comma_each xs"
  by (induction xs arbitrary: x) simp_all

lemma parse_more_strings_written:
  "parse_more_strings (comma_each (map (\<lambda>v. [TString v]) vs) @ TRBrack # rest) = Some (vs, rest)"
  by (induction vs) simp_all

lemma parse_strings_written:
  "parse_strings (separated (map (\<lambda>v. [TString v]) vs) @ TRBrack # rest) = Some (vs, rest)"
proof (cases vs)
  case Nil
  then show ?thesis by simp
next
  case (Cons v vs')
  then show ?thesis
    by (simp add: separated_Cons parse_more_strings_written del: separated.simps)
qed

lemma entry_of_pair:
  "entry_of (name, c) =
     (name, [(''description'', FText (description c)), (''accepted_values'', FList (accepted_values c))])"
  by (simp add: entry_of_def)

lemma parse_fields_written:
  "parse_fields (tl (criterion_tokens c) @ rest) =
     Some ([(''description'', FText (description c)), (''accepted_values'', FList (accepted_values c))], rest)"
  by (simp add: criterion_tokens_def parse_strings_written)

lemma parse_more_entries_step:
  "parse_more_entries (TComma # TString name # TColon # criterion_tokens c @ ts) =
     map_option (\<lambda>(es, rest). (entry_of (name, c) # es, rest)) (parse_more_entries ts)"
proof -
  have a: "parse_more_entries (TComma # TString name # TColon # TLBrace # (tl (criterion_tokens c) @ ts)) =
     map_option (\<lambda>(es, rest). (entry_of (name, c) # es, rest)) (parse_more_entries ts)"
    by (simp add: parse_fields_written entry_of_pair)
  have b: "criterion_tokens c @ ts = TLBrace # (tl (criterion_tokens c) @ ts)"
    by (simp add: criterion_tokens_def)
  show ?thesis by (subst b) (rule a)
qed

lemma parse_entries_step:
  "parse_entries (TString name # TColon # criterion_tokens c @ ts) =
     map_option (\<lambda>(es, rest). (entry_of (name, c) # es, rest)) (parse_more_entries ts)"
proof -
  have a: "parse_entries (TString name # TColon # TLBrace # (tl (criterion_tokens c) @ ts)) =
     map_option (\<lambda>(es, rest). (entry_of (name, c) # es, rest)) (parse_more_entries ts)"
    by (simp add: parse_fields_written entry_of_pair)
  have b: "criterion_tokens c @ ts = TLBrace # (tl (criterion_tokens c) @ ts)"
    by (simp add: criterion_tokens_def)
  show ?thesis by (subst b) (rule a)
qed

lemma parse_more_entries_written:
  "parse_more_entries
     (comma_each (map (\<lambda>(name, c). TString name # TColon # criterion_tokens c) store) @ TRBrace # rest) =
     Some (map entry_of store, rest)"
proof (induction store)
  case Nil
  show ?case by simp
next
  case (Cons e store)
  obtain name c where e: "e = (name, c)" by (cases e)
  show ?case
    by (simp add: e parse_more_entries_step Cons.IH del: parse_more_entries.simps)
qed

lemma parse_entries_written:
  "parse_entries
     (separated (map (\<lambda>(name, c). TString name # TColon # criterion_tokens c) store) @ TRBrace # rest) =
     Some (map entry_of store, rest)"
proof (cases store)
  case Nil
  then show ?thesis by simp
next
  case (Cons e store')
  obtain name c where e: "e = (name, c)" by (cases e)
  show ?thesis
    by (simp add: Cons e separated_Cons parse_entries_step parse_more_entries_written
        del: separated.simps parse_entries.simps)
qed

lemma parse_document_written: "parse_document (document_tokens store) = Some (map entry_of store)"
  using parse_entries_written [of store "[]"] by (simp add: document_tokens_def)

lemma store_of_entries_written:
  "list_all (\<lambda>(name, c). name \<noteq> [] \<and> accepted_values c \<noteq> [] \<and> distinct (accepted_values c)) store \<Longrightarrow>
   store_of_entries (map entry_of store) = Some store"
proof (induction store)
  case Nil
  show ?case by simp
next
  case (Cons e store)
  obtain name c where e: "e = (name, c)" by (cases e)
  from Cons show ?case
    by (simp add: e entry_of_pair criterion_of_fields_def)
qed


lemma criterion_of_fields_valid:
  "criterion_of_fields fs = Some c \<Longrightarrow> accepted_values c \<noteq> [] \<and> distinct (accepted_values c)"
  by (auto simp: criterion_of_fields_def split: if_splits option.splits field_value.splits)

lemma store_of_entries_valid:
  "store_of_entries es = Some store \<Longrightarrow>
   list_all (\<lambda>(name, c). name \<noteq> [] \<and> accepted_values c \<noteq> [] \<and> distinct (accepted_values c)) store"
proof (induction es arbitrary: store rule: store_of_entries.induct)
  case 1
  then show ?case by simp
next
  case (2 name fs es)
  then show ?case
    by (auto split: if_splits option.splits dest: criterion_of_fields_valid)
qed

lemma deserialize_valid: "deserialize doc = Inr store \<Longrightarrow> valid_store store"
  by (auto simp: deserialize_def valid_store_def split: option.splits if_splits
      dest: store_of_entries_valid)


text \<open>
  C1. For every valid Criteria Store (names not empty and unique, accepted values not
  empty and without a repeated label), reading back the text that \<open>serialize\<close> writes
  yields the store itself: the same names, descriptions and accepted values, in the
  same order.
\<close>

theorem deserialize_serialize:
  "valid_store store \<Longrightarrow> deserialize (serialize store) = Inr store"
  by (simp add: valid_store_def deserialize_def serialize_def lex_rendered parse_document_written
      store_of_entries_written)

text \<open>
  The theorem at a store of two criteria, one with a description that holds quotes, a
  newline, a backslash and a character beyond ASCII; and the text written for a store of
  one criterion.
\<close>

theorem deserialize_serialize_witness:
  \<open>valid_store
     [(''accuracy'', \<lparr>description = ''is the answer right'', accepted_values = [''incorrect'', ''correct'']\<rparr>),
      (''clarity'', \<lparr>description = [CHR 0x22, CHR ''a'', CHR 0x22, CHR 0x0A, CHR 0x5C, CHR 0xE9],
                     accepted_values = [''low'', ''medium'', ''high'']\<rparr>)] \<and>
   deserialize (serialize
     [(''accuracy'', \<lparr>description = ''is the answer right'', accepted_values = [''incorrect'', ''correct'']\<rparr>),
      (''clarity'', \<lparr>description = [CHR 0x22, CHR ''a'', CHR 0x22, CHR 0x0A, CHR 0x5C, CHR 0xE9],
                     accepted_values = [''low'', ''medium'', ''high'']\<rparr>)]) =
   Inr
     [(''accuracy'', \<lparr>description = ''is the answer right'', accepted_values = [''incorrect'', ''correct'']\<rparr>),
      (''clarity'', \<lparr>description = [CHR 0x22, CHR ''a'', CHR 0x22, CHR 0x0A, CHR 0x5C, CHR 0xE9],
                     accepted_values = [''low'', ''medium'', ''high'']\<rparr>)] \<and>
   serialize
     [(''accuracy'', \<lparr>description = ''is the answer right'', accepted_values = [''incorrect'', ''correct'']\<rparr>)] =
   ''{"accuracy": {"description": "is the answer right", "accepted_values": ["incorrect", "correct"]}}''\<close>
proof -
  have v: "valid_store
     [(''accuracy'', \<lparr>description = ''is the answer right'', accepted_values = [''incorrect'', ''correct'']\<rparr>),
      (''clarity'', \<lparr>description = [CHR 0x22, CHR ''a'', CHR 0x22, CHR 0x0A, CHR 0x5C, CHR 0xE9],
                     accepted_values = [''low'', ''medium'', ''high'']\<rparr>)]"
    by (simp add: valid_store_def)
  have t: \<open>serialize
     [(''accuracy'', \<lparr>description = ''is the answer right'', accepted_values = [''incorrect'', ''correct'']\<rparr>)] =
   ''{"accuracy": {"description": "is the answer right", "accepted_values": ["incorrect", "correct"]}}''\<close>
    by code_simp
  from deserialize_serialize [OF v] v t show ?thesis by simp
qed

end
